theory Spec2Isabelle
  imports Complex_Main "HOL-Library.Sublist" "HOL-Library.Multiset"
begin

section \<open>Variant diff helpers: comparing two solved rota workbooks\<close>

text \<open>
  The development embeds \<^verbatim>\<open>variant_diff_helpers.py\<close>: the normalisation of a cell value
  (\<^verbatim>\<open>_norm\<close>), the enumeration of the sheets two workbooks share (\<^verbatim>\<open>common_sheets\<close>), the
  cell-by-cell scan of one sheet (\<^verbatim>\<open>diff_sheet\<close>) and the roll-ups over its result
  (\<^verbatim>\<open>diff_summary\<close>, \<^verbatim>\<open>top_changed_rows\<close>, \<^verbatim>\<open>top_changed_cols\<close>).

  The functions start from workbooks that openpyxl has already loaded; decoding the byte
  buffers is the library's work. A string is a list of characters, each standing for a
  code point below 256. A float cell holds a finite double, written as the real number
  it denotes: on finite doubles every float operation of \<^verbatim>\<open>_norm\<close> (the subtraction of the
  nearest integer, \<^verbatim>\<open>abs\<close>, the comparison and the correctly rounded decimal conversion) is
  exact, so the real number computes what the double does. Infinities and NaN, which no
  spreadsheet stores, are outside the model.
\<close>

subsection \<open>Python strings and integers\<close>

text \<open>\<^verbatim>\<open>str.isspace\<close> on the code points below 256.\<close>

definition py_isspace :: "char \<Rightarrow> bool" where
  "py_isspace ch =
     (let n = (of_char ch :: nat)
      in (9 \<le> n \<and> n \<le> 13) \<or> (28 \<le> n \<and> n \<le> 32) \<or> n = 133 \<or> n = 160)"

text \<open>\<^verbatim>\<open>str.strip()\<close>: leading and trailing whitespace removed.\<close>

definition strip :: "string \<Rightarrow> string" where
  "strip s = rev (dropWhile py_isspace (rev (dropWhile py_isspace s)))"

definition digit_char :: "nat \<Rightarrow> char" where
  "digit_char d = ''0123456789'' ! d"

text \<open>The decimal digits of a natural number, most significant first.\<close>

fun digits :: "nat \<Rightarrow> string" where
  "digits n = (if n < 10 then [digit_char n] else digits (n div 10) @ [digit_char (n mod 10)])"

declare digits.simps [simp del]

text \<open>\<^verbatim>\<open>str(i)\<close> for a Python \<^verbatim>\<open>int\<close>.\<close>

definition str_int :: "int \<Rightarrow> string" where
  "str_int i = (if i < 0 then CHR ''-'' # digits (nat (- i)) else digits (nat i))"

subsection \<open>Floats: rounding and the \<^verbatim>\<open>.10g\<close> format\<close>

text \<open>\<^verbatim>\<open>round(v)\<close> with one argument: the nearest integer, a tie going to the even one.\<close>

definition py_round :: "real \<Rightarrow> int" where
  "py_round v =
     (let f = \<lfloor>v\<rfloor>; d = v - of_int f
      in if d < 1 / 2 then f
         else if 1 / 2 < d then f + 1
         else if even f then f else f + 1)"

text \<open>
  The literal \<^verbatim>\<open>1e-9\<close> of the source is the double nearest to \<open>10\<^sup>-\<^sup>9\<close>, which is
  \<open>4835703278458517 / 2\<^sup>8\<^sup>2\<close>.
\<close>

definition eps :: real where
  "eps = 4835703278458517 / 2 ^ 82"

text \<open>
  The decimal exponent of a positive number \<open>a\<close>: the \<open>X\<close> with \<open>10\<^sup>X \<le> a < 10\<^sup>X\<^sup>+\<^sup>1\<close>,
  read off the number of digits of \<open>\<lfloor>a\<rfloor>\<close> when \<open>1 \<le> a\<close> and of \<open>\<lceil>1/a\<rceil> - 1\<close> otherwise.
\<close>

definition decimal_exponent :: "real \<Rightarrow> int" where
  "decimal_exponent a =
     (if 1 \<le> a then int (length (digits (nat \<lfloor>a\<rfloor>))) - 1
      else - int (length (digits (nat (\<lceil>1 / a\<rceil> - 1)))))"

text \<open>\<open>a \<cdot> 10\<^sup>e\<close> for an integer exponent of either sign.\<close>

definition scale10 :: "real \<Rightarrow> int \<Rightarrow> real" where
  "scale10 a e = (if 0 \<le> e then a * 10 ^ nat e else a / 10 ^ nat (- e))"

text \<open>
  A positive number rounded to ten significant digits, as the pair \<open>(m, X)\<close> of a ten-digit
  mantissa and a decimal exponent standing for \<open>m \<cdot> 10\<^sup>X\<^sup>-\<^sup>9\<close>. The conversion is correctly
  rounded, ties to even; a mantissa that rounds up to \<open>10\<^sup>1\<^sup>0\<close> carries into the exponent.
\<close>

definition sig10 :: "real \<Rightarrow> int \<times> int" where
  "sig10 a =
     (let X = decimal_exponent a; m = py_round (scale10 a (9 - X))
      in if m = 10 ^ 10 then (10 ^ 9, X + 1) else (m, X))"

definition strip_zeros :: "string \<Rightarrow> string" where
  "strip_zeros ds = rev (dropWhile (\<lambda>ch. ch = CHR ''0'') (rev ds))"

text \<open>A fraction part: nothing when no digit is left, else a point and the digits.\<close>

definition frac_part :: "string \<Rightarrow> string" where
  "frac_part ds = (let f = strip_zeros ds in if f = [] then [] else CHR ''.'' # f)"

text \<open>The exponent of the scientific form: a sign and at least two digits.\<close>

definition exp_part :: "int \<Rightarrow> string" where
  "exp_part X =
     CHR ''e'' # (if X < 0 then CHR ''-'' else CHR ''+'') #
     (if \<bar>X\<bar> < 10 then CHR ''0'' # digits (nat \<bar>X\<bar>) else digits (nat \<bar>X\<bar>))"

text \<open>
  The general format with precision 10 on a positive number: fixed notation when the
  exponent lies in \<open>[-4, 10)\<close>, scientific notation otherwise, and in both the trailing
  zeros of the fraction dropped, the point with them when nothing follows it.
\<close>

definition format_pos :: "real \<Rightarrow> string" where
  "format_pos a =
     (let (m, X) = sig10 a; ds = digits (nat m)
      in if - 4 \<le> X \<and> X < 10 then
           (if 0 \<le> X then take (nat X + 1) ds @ frac_part (drop (nat X + 1) ds)
            else ''0.'' @ replicate (nat (- X - 1)) (CHR ''0'') @ strip_zeros ds)
         else take 1 ds @ frac_part (drop 1 ds) @ exp_part X)"

text \<open>\<^verbatim>\<open>f"{v:.10g}"\<close>.\<close>

definition format_10g :: "real \<Rightarrow> string" where
  "format_10g v =
     (if v = 0 then ''0''
      else if v < 0 then CHR ''-'' # format_pos (- v)
      else format_pos v)"

subsection \<open>Cell values and their normalisation\<close>

text \<open>
  What \<^verbatim>\<open>cell.value\<close> can be once a workbook is loaded with \<^verbatim>\<open>data_only=True\<close>: nothing, a
  float, an int, a string, a bool, or another object (a date, a time), which \<^verbatim>\<open>_norm\<close> only
  ever turns into text and which is therefore carried as the text \<^verbatim>\<open>str\<close> gives for it.
\<close>

datatype cell_value =
    VNone
  | VFloat real
  | VInt int
  | VStr string
  | VBool bool
  | VOther string

text \<open>\<^verbatim>\<open>str(b)\<close> for a \<^verbatim>\<open>bool\<close>.\<close>

definition str_bool :: "bool \<Rightarrow> string" where
  "str_bool b = (if b then ''True'' else ''False'')"

text \<open>
  \<^verbatim>\<open>_norm\<close>. The first two tests of the source take \<^verbatim>\<open>None\<close> and the floats; every other
  value goes through \<^verbatim>\<open>str(v).strip()\<close>. A \<^verbatim>\<open>bool\<close> is an \<^verbatim>\<open>int\<close> in Python but not a
  \<^verbatim>\<open>float\<close>, so it takes the last branch as well.
\<close>

fun norm_cell :: "cell_value \<Rightarrow> string" where
  "norm_cell VNone = []"
| "norm_cell (VFloat v) =
     (if \<bar>v - of_int (py_round v)\<bar> < eps then str_int (py_round v) else format_10g v)"
| "norm_cell (VInt i) = strip (str_int i)"
| "norm_cell (VStr s) = strip s"
| "norm_cell (VBool b) = strip (str_bool b)"
| "norm_cell (VOther s) = strip s"

subsection \<open>Workbooks\<close>

text \<open>
  A loaded worksheet: the cells it stores, by (row, column) from 1, and the values of its
  \<^verbatim>\<open>max_row\<close> and \<^verbatim>\<open>max_column\<close> properties. A workbook is the sequence of its worksheets
  with their titles, in document order.

  A document can hold chart sheets beside its worksheets. openpyxl lists their titles in
  \<^verbatim>\<open>sheetnames\<close> as well and returns a \<^verbatim>\<open>Chartsheet\<close> for them, an object without cells,
  \<^verbatim>\<open>max_row\<close> or \<^verbatim>\<open>max_column\<close>, on which \<^verbatim>\<open>diff_sheet\<close> raises \<^verbatim>\<open>AttributeError\<close>. Chart sheets
  are not part of this model: what is proved of the sheets of a workbook is proved of its
  worksheets.
\<close>

record worksheet =
  cells :: "nat \<times> nat \<rightharpoonup> cell_value"
  max_row :: nat
  max_column :: nat

type_synonym workbook = "(string \<times> worksheet) list"

definition sheetnames :: "workbook \<Rightarrow> string list" where
  "sheetnames wb = map fst wb"

text \<open>\<^verbatim>\<open>ws.cell(r, c).value\<close>: a coordinate that stores no cell reads as \<^verbatim>\<open>None\<close>.\<close>

definition cell_value_at :: "worksheet \<Rightarrow> nat \<Rightarrow> nat \<Rightarrow> cell_value" where
  "cell_value_at ws r c = (case cells ws (r, c) of None \<Rightarrow> VNone | Some v \<Rightarrow> v)"

datatype error = KeyError

text \<open>
  \<^verbatim>\<open>wb[sheet_name]\<close>: the first worksheet of that title, \<^verbatim>\<open>KeyError\<close> when there is none.
\<close>

fun get_sheet :: "workbook \<Rightarrow> string \<Rightarrow> error + worksheet" where
  "get_sheet [] name = Inl KeyError"
| "get_sheet ((title, ws) # wb) name = (if title = name then Inr ws else get_sheet wb name)"

subsection \<open>Sheet enumeration\<close>

definition common_sheets :: "workbook \<Rightarrow> workbook \<Rightarrow> string list" where
  "common_sheets wb_a wb_b = [s \<leftarrow> sheetnames wb_a. s \<in> set (sheetnames wb_b)]"

subsection \<open>Sheet diff scan\<close>

text \<open>
  \<^verbatim>\<open>get_column_letter\<close> of openpyxl: the bijective base-26 lettering A, \<dots>, Z, AA, AB, \<dots>,
  by repeated \<^verbatim>\<open>divmod\<close> with a borrow when the remainder is 0. The library has it for
  the columns 1 to 18278 (A to ZZZ), which are all the columns a loaded sheet can have; the
  function below continues the same lettering beyond them.
\<close>

definition letter_char :: "nat \<Rightarrow> char" where
  "letter_char r = ''ABCDEFGHIJKLMNOPQRSTUVWXYZ'' ! (r - 1)"

fun get_column_letter :: "nat \<Rightarrow> string" where
  "get_column_letter col_idx =
     (if col_idx = 0 then []
      else if col_idx mod 26 = 0
        then get_column_letter (col_idx div 26 - 1) @ [letter_char 26]
        else get_column_letter (col_idx div 26) @ [letter_char (col_idx mod 26)])"

declare get_column_letter.simps [simp del]

text \<open>One row of the result table, with the columns Cell, Row, Col, A and B.\<close>

record diff_record =
  Cell :: string
  Row :: nat
  Col :: nat
  A_val :: string
  B_val :: string

text \<open>Python's \<^verbatim>\<open>x or 1\<close> on a count: 1 when \<open>x\<close> is 0.\<close>

definition or_one :: "nat \<Rightarrow> nat" where
  "or_one x = (if x = 0 then 1 else x)"

text \<open>
  The inner loop over the columns of row \<open>r\<close>. A differing cell is appended, and the loop
  is left when the table has then reached the cap; the cap is not looked at otherwise.
\<close>

fun scan_row ::
  "worksheet \<Rightarrow> worksheet \<Rightarrow> int \<Rightarrow> nat \<Rightarrow> nat list \<Rightarrow> diff_record list \<Rightarrow> diff_record list"
where
  "scan_row ws_a ws_b max_changes r [] changes = changes"
| "scan_row ws_a ws_b max_changes r (c # cs) changes =
     (let va = norm_cell (cell_value_at ws_a r c);
          vb = norm_cell (cell_value_at ws_b r c)
      in if va \<noteq> vb then
           (let changes' = changes @
                  [\<lparr>Cell = get_column_letter c @ str_int (int r), Row = r, Col = c,
                    A_val = va, B_val = vb\<rparr>]
            in if max_changes \<le> int (length changes') then changes'
               else scan_row ws_a ws_b max_changes r cs changes')
         else scan_row ws_a ws_b max_changes r cs changes)"

text \<open>
  The outer loop over the rows. After the columns of a row it tests the cap again and
  leaves, whether or not that row appended anything.
\<close>

fun scan_rows ::
  "worksheet \<Rightarrow> worksheet \<Rightarrow> int \<Rightarrow> nat list \<Rightarrow> nat list \<Rightarrow> diff_record list
     \<Rightarrow> diff_record list"
where
  "scan_rows ws_a ws_b max_changes [] cols changes = changes"
| "scan_rows ws_a ws_b max_changes (r # rs) cols changes =
     (let changes' = scan_row ws_a ws_b max_changes r cols changes
      in if max_changes \<le> int (length changes') then changes'
         else scan_rows ws_a ws_b max_changes rs cols changes')"

text \<open>
  \<^verbatim>\<open>diff_sheet\<close>. The two \<^verbatim>\<open>range(1, n + 1)\<close> are the lists \<open>[1..<n + 1]\<close>; the table is the list
  of its rows, the empty table the empty list.
\<close>

definition diff_sheet ::
  "workbook \<Rightarrow> workbook \<Rightarrow> string \<Rightarrow> int \<Rightarrow> error + diff_record list"
where
  "diff_sheet wb_a wb_b sheet_name max_changes =
     (if sheet_name \<notin> set (sheetnames wb_a) \<or> sheet_name \<notin> set (sheetnames wb_b)
      then Inr []
      else
        case get_sheet wb_a sheet_name of
          Inl e \<Rightarrow> Inl e
        | Inr ws_a \<Rightarrow>
           (case get_sheet wb_b sheet_name of
              Inl e \<Rightarrow> Inl e
            | Inr ws_b \<Rightarrow>
               (let mr = max (or_one (max_row ws_a)) (or_one (max_row ws_b));
                    mc = max (or_one (max_column ws_a)) (or_one (max_column ws_b))
                in Inr (scan_rows ws_a ws_b max_changes [1..<mr + 1] [1..<mc + 1] []))))"

subsection \<open>Summary and hotspot ranking\<close>

text \<open>\<^verbatim>\<open>Series.nunique()\<close>: the number of distinct values.\<close>

definition nunique :: "'a list \<Rightarrow> nat" where
  "nunique xs = length (remdups xs)"

record summary =
  changed_cells :: nat
  changed_rows :: nat
  changed_cols :: nat

definition diff_summary :: "diff_record list \<Rightarrow> summary" where
  "diff_summary df =
     (if df = [] then \<lparr>changed_cells = 0, changed_rows = 0, changed_cols = 0\<rparr>
      else \<lparr>changed_cells = length df,
            changed_rows = nunique (map Row df),
            changed_cols = nunique (map Col df)\<rparr>)"

text \<open>
  \<^verbatim>\<open>groupby(key, as_index=False).size()\<close>: one (key, size) row for each key. pandas groups
  with \<^verbatim>\<open>sort=True\<close> unless told otherwise, so the groups come in ascending key order.
\<close>

definition groupby_size :: "(diff_record \<Rightarrow> nat) \<Rightarrow> diff_record list \<Rightarrow> (nat \<times> nat) list" where
  "groupby_size key df =
     map (\<lambda>k. (k, length [d \<leftarrow> df. key d = k])) (sort (remdups (map key df)))"

text \<open>
  \<^verbatim>\<open>DataFrame.head(n)\<close>: the first \<open>n\<close> rows, and for a negative \<open>n\<close> all rows but the
  last \<open>-n\<close>.
\<close>

definition df_head :: "int \<Rightarrow> 'a list \<Rightarrow> 'a list" where
  "df_head n xs = (if 0 \<le> n then take (nat n) xs else take (length xs - nat (- n)) xs)"

text \<open>
  \<^verbatim>\<open>sort_values("ChangedCells", ascending=False)\<close> runs with the default
  \<^verbatim>\<open>kind='quicksort'\<close>, which orders the rows by the count and promises nothing about rows
  of equal count. The sort is therefore a parameter of the two ranking functions: all that
  is known of it is \<open>sorts_desc\<close>, that its result is a rearrangement of the table with the
  counts descending.
\<close>

type_synonym sort_values = "(nat \<times> nat) list \<Rightarrow> (nat \<times> nat) list"

definition sorts_desc :: "sort_values \<Rightarrow> bool" where
  "sorts_desc srt \<longleftrightarrow>
     (\<forall>xs. mset (srt xs) = mset xs \<and> sorted_wrt (\<lambda>x y. snd y \<le> snd x) (srt xs))"

text \<open>
  One such sort, the stable one (pandas reverses the table, sorts it stably by ascending
  count and reverses the result): it is the order numpy's quicksort leaves on a short
  table, which it sorts by insertion.
\<close>

definition stable_sort_desc :: sort_values where
  "stable_sort_desc xs = rev (sort_key snd (rev xs))"

definition top_changed_rows :: "sort_values \<Rightarrow> diff_record list \<Rightarrow> int \<Rightarrow> (nat \<times> nat) list" where
  "top_changed_rows srt df top_n =
     (if df = [] then [] else df_head top_n (srt (groupby_size Row df)))"

definition top_changed_cols :: "sort_values \<Rightarrow> diff_record list \<Rightarrow> int \<Rightarrow> (nat \<times> nat) list" where
  "top_changed_cols srt df top_n =
     (if df = [] then [] else df_head top_n (srt (groupby_size Col df)))"

subsection \<open>Reference notions for the scan\<close>

text \<open>
  What the scan is measured against: when two cells differ, the record of a differing
  coordinate, and the list of all discrepancies of a range in row-major order (row by row,
  and by ascending column inside a row).
\<close>

definition differs :: "worksheet \<Rightarrow> worksheet \<Rightarrow> nat \<Rightarrow> nat \<Rightarrow> bool" where
  "differs ws_a ws_b r c \<longleftrightarrow>
     norm_cell (cell_value_at ws_a r c) \<noteq> norm_cell (cell_value_at ws_b r c)"

definition mk_record :: "worksheet \<Rightarrow> worksheet \<Rightarrow> nat \<Rightarrow> nat \<Rightarrow> diff_record" where
  "mk_record ws_a ws_b r c =
     \<lparr>Cell = get_column_letter c @ str_int (int r), Row = r, Col = c,
      A_val = norm_cell (cell_value_at ws_a r c),
      B_val = norm_cell (cell_value_at ws_b r c)\<rparr>"

definition row_discrepancies ::
  "worksheet \<Rightarrow> worksheet \<Rightarrow> nat \<Rightarrow> nat list \<Rightarrow> diff_record list"
where
  "row_discrepancies ws_a ws_b r cols =
     map (mk_record ws_a ws_b r) (filter (differs ws_a ws_b r) cols)"

definition discrepancies ::
  "worksheet \<Rightarrow> worksheet \<Rightarrow> nat list \<Rightarrow> nat list \<Rightarrow> diff_record list"
where
  "discrepancies ws_a ws_b rows cols =
     concat (map (\<lambda>r. row_discrepancies ws_a ws_b r cols) rows)"

text \<open>The rows and the columns that \<^verbatim>\<open>diff_sheet\<close> scans for a pair of sheets.\<close>

definition scan_rows_range :: "worksheet \<Rightarrow> worksheet \<Rightarrow> nat list" where
  "scan_rows_range ws_a ws_b = [1..<max (or_one (max_row ws_a)) (or_one (max_row ws_b)) + 1]"

definition scan_cols_range :: "worksheet \<Rightarrow> worksheet \<Rightarrow> nat list" where
  "scan_cols_range ws_a ws_b =
     [1..<max (or_one (max_column ws_a)) (or_one (max_column ws_b)) + 1]"

definition all_discrepancies :: "worksheet \<Rightarrow> worksheet \<Rightarrow> diff_record list" where
  "all_discrepancies ws_a ws_b =
     discrepancies ws_a ws_b (scan_rows_range ws_a ws_b) (scan_cols_range ws_a ws_b)"

text \<open>The characters that the rendering of a number is made of.\<close>

definition plain_chars :: "char set" where
  "plain_chars = set ''0123456789.-+e''"

text \<open>
  The significant digits of a rendered number: the digits of its mantissa (what stands
  before the exponent), sign and point left out, without the leading zeros.
\<close>

definition is_digit :: "char \<Rightarrow> bool" where
  "is_digit ch \<longleftrightarrow> ch \<in> set ''0123456789''"

definition significant_digits :: "string \<Rightarrow> string" where
  "significant_digits s =
     dropWhile (\<lambda>ch. ch = CHR ''0'')
       (filter is_digit (takeWhile (\<lambda>ch. ch \<noteq> CHR ''e'') s))"

text \<open>Row-major order on records: by row, then by column.\<close>

definition row_major :: "diff_record \<Rightarrow> diff_record \<Rightarrow> bool" where
  "row_major d e \<longleftrightarrow> Row d < Row e \<or> (Row d = Row e \<and> Col d < Col e)"

text \<open>The keys of a table in the order in which they are first met.\<close>

definition first_seen :: "'a list \<Rightarrow> 'a list" where
  "first_seen xs = rev (remdups (rev xs))"

text \<open>What \<^verbatim>\<open>diff_sheet\<close> returns on a sheet that both workbooks have.\<close>

definition scan_result :: "worksheet \<Rightarrow> worksheet \<Rightarrow> int \<Rightarrow> diff_record list" where
  "scan_result ws_a ws_b k =
     (if 1 \<le> k then take (nat k) (all_discrepancies ws_a ws_b)
      else take 1 (row_discrepancies ws_a ws_b 1 (scan_cols_range ws_a ws_b)))"

text \<open>A record with its A and B fields exchanged.\<close>

definition swap_ab :: "diff_record \<Rightarrow> diff_record" where
  "swap_ab d = \<lparr>Cell = Cell d, Row = Row d, Col = Col d, A_val = B_val d, B_val = A_val d\<rparr>"

subsection \<open>Example workbooks\<close>

text \<open>
  Two workbooks that share the sheet Rota and differ there in B2 only, Alice against Bob;
  each has one more sheet that the other lacks. A third workbook differs from the first in
  A1 as well.
\<close>

definition rota_a :: worksheet where
  "rota_a = \<lparr>cells = [(1, 1) \<mapsto> VStr ''Name'', (2, 1) \<mapsto> VFloat 1, (2, 2) \<mapsto> VStr ''Alice''],
             max_row = 2, max_column = 2\<rparr>"

definition rota_b :: worksheet where
  "rota_b = \<lparr>cells = [(1, 1) \<mapsto> VStr ''Name'', (2, 1) \<mapsto> VInt 1, (2, 2) \<mapsto> VStr ''Bob''],
             max_row = 2, max_column = 2\<rparr>"

definition rota_c :: worksheet where
  "rota_c = \<lparr>cells = [(1, 1) \<mapsto> VStr ''Staff'', (2, 1) \<mapsto> VInt 1, (2, 2) \<mapsto> VStr ''Bob''],
             max_row = 2, max_column = 2\<rparr>"

definition example_c :: workbook where
  "example_c = [(''Rota'', rota_c)]"

definition blank_sheet :: worksheet where
  "blank_sheet = \<lparr>cells = Map.empty, max_row = 1, max_column = 1\<rparr>"

definition example_a :: workbook where
  "example_a = [(''Rota'', rota_a), (''Notes'', blank_sheet)]"

definition example_b :: workbook where
  "example_b = [(''Rota'', rota_b), (''Audit'', blank_sheet)]"

subsection \<open>Example tables\<close>

text \<open>
  Tables of difference records as a scan returns them. In the first two every row and
  every column has one record; they hold the columns 3 and 1 in the two possible orders.
  In the third, row 2 and column 3 have two records each.
\<close>

definition tie_table :: "diff_record list" where
  "tie_table =
     [\<lparr>Cell = ''C1'', Row = 1, Col = 3, A_val = ''x'', B_val = ''y''\<rparr>,
      \<lparr>Cell = ''A2'', Row = 2, Col = 1, A_val = ''x'', B_val = ''y''\<rparr>]"

definition tie_table' :: "diff_record list" where
  "tie_table' =
     [\<lparr>Cell = ''A1'', Row = 1, Col = 1, A_val = ''x'', B_val = ''y''\<rparr>,
      \<lparr>Cell = ''C2'', Row = 2, Col = 3, A_val = ''x'', B_val = ''y''\<rparr>]"

definition hot_table :: "diff_record list" where
  "hot_table =
     [\<lparr>Cell = ''C1'', Row = 1, Col = 3, A_val = ''x'', B_val = ''y''\<rparr>,
      \<lparr>Cell = ''A2'', Row = 2, Col = 1, A_val = ''x'', B_val = ''y''\<rparr>,
      \<lparr>Cell = ''C2'', Row = 2, Col = 3, A_val = ''x'', B_val = ''y''\<rparr>]"

section \<open>Properties\<close>

subsection \<open>Sheets\<close>

lemma get_sheet_present:
  "name \<in> set (sheetnames wb) \<Longrightarrow> \<exists>ws. get_sheet wb name = Inr ws"
  by (induction wb) (force simp: sheetnames_def)+

lemma get_sheet_name:
  "get_sheet wb name = Inr ws \<Longrightarrow> name \<in> set (sheetnames wb)"
  by (induction wb) (auto simp: sheetnames_def split: if_splits)

text \<open>
  C5: \<^verbatim>\<open>common_sheets\<close> returns the names that both workbooks have, each as often as the
  first workbook lists it and in the order of the first workbook (it is a subsequence of
  that workbook's names); a name of one workbook only is left out; the result is empty
  exactly when no name is shared; and on the two example workbooks, with the sheets Rota,
  Notes and Rota, Audit, it is the one name Rota.
\<close>

theorem common_sheets_exact:
  "set (common_sheets wb_a wb_b) = set (sheetnames wb_a) \<inter> set (sheetnames wb_b)
   \<and> subseq (common_sheets wb_a wb_b) (sheetnames wb_a)
   \<and> (\<forall>s. count_list (common_sheets wb_a wb_b) s =
          (if s \<in> set (sheetnames wb_b) then count_list (sheetnames wb_a) s else 0))
   \<and> ((common_sheets wb_a wb_b = []) = (set (sheetnames wb_a) \<inter> set (sheetnames wb_b) = {}))
   \<and> common_sheets example_a example_b = [''Rota'']"
proof -
  have count: "count_list (filter P xs) s = (if P s then count_list xs s else 0)"
    for P and xs :: "string list" and s
    by (induction xs) auto
  have "set (common_sheets wb_a wb_b) = set (sheetnames wb_a) \<inter> set (sheetnames wb_b)"
    by (auto simp: common_sheets_def)
  moreover have "subseq (common_sheets wb_a wb_b) (sheetnames wb_a)"
    by (simp add: common_sheets_def)
  moreover have "\<forall>s. count_list (common_sheets wb_a wb_b) s =
          (if s \<in> set (sheetnames wb_b) then count_list (sheetnames wb_a) s else 0)"
    by (simp add: common_sheets_def count)
  moreover have "(common_sheets wb_a wb_b = []) =
      (set (sheetnames wb_a) \<inter> set (sheetnames wb_b) = {})"
    by (auto simp: common_sheets_def filter_empty_conv)
  moreover have "common_sheets example_a example_b = [''Rota'']"
    by (simp add: common_sheets_def sheetnames_def example_a_def example_b_def)
  ultimately show ?thesis by blast
qed

subsection \<open>Summary\<close>

text \<open>
  C6: \<^verbatim>\<open>diff_summary\<close> counts the records, the distinct rows and the distinct columns among
  them; the three counts are 0 for the empty table; and neither the rows nor the columns
  outnumber the records.
\<close>

theorem diff_summary_counts:
  "changed_cells (diff_summary df) = length df
   \<and> changed_rows (diff_summary df) = card (Row ` set df)
   \<and> changed_cols (diff_summary df) = card (Col ` set df)
   \<and> diff_summary [] = \<lparr>changed_cells = 0, changed_rows = 0, changed_cols = 0\<rparr>
   \<and> changed_rows (diff_summary df) \<le> changed_cells (diff_summary df)
   \<and> changed_cols (diff_summary df) \<le> changed_cells (diff_summary df)"
proof -
  have nu: "nunique (map f df) = card (f ` set df)" for f :: "diff_record \<Rightarrow> nat"
    by (simp add: nunique_def length_remdups_card_conv)
  have le: "card (f ` set df) \<le> length df" for f :: "diff_record \<Rightarrow> nat"
    by (rule order_trans [OF card_image_le card_length]) simp
  show ?thesis
    using le [of Row] le [of Col] by (simp add: diff_summary_def nu)
qed

subsection \<open>The scan loops\<close>

lemma row_discrepancies_Nil [simp]: "row_discrepancies ws_a ws_b r [] = []"
  by (simp add: row_discrepancies_def)

lemma row_discrepancies_Cons:
  "row_discrepancies ws_a ws_b r (c # cs) =
     (if differs ws_a ws_b r c then mk_record ws_a ws_b r c # row_discrepancies ws_a ws_b r cs
      else row_discrepancies ws_a ws_b r cs)"
  by (simp add: row_discrepancies_def)

lemma scan_row_eq:
  "scan_row ws_a ws_b k r cs acc =
     acc @ take (nat (max 1 (k - int (length acc)))) (row_discrepancies ws_a ws_b r cs)"
proof (induction cs arbitrary: acc)
  case Nil
  show ?case by simp
next
  case (Cons c cs)
  show ?case
  proof (cases "differs ws_a ws_b r c")
    case False
    then show ?thesis
      using Cons.IH [of acc] by (simp add: row_discrepancies_Cons differs_def)
  next
    case True
    let ?d = "mk_record ws_a ws_b r c"
    show ?thesis
    proof (cases "k \<le> int (length acc) + 1")
      case True
      then have "nat (max 1 (k - int (length acc))) = Suc 0" by simp
      with \<open>differs ws_a ws_b r c\<close> True show ?thesis
        by (simp add: row_discrepancies_Cons differs_def mk_record_def Let_def)
    next
      case False
      then have n: "nat (max 1 (k - int (length acc))) = Suc (nat (max 1 (k - int (length (acc @ [?d])))))"
        by simp
      from \<open>differs ws_a ws_b r c\<close> False
      have "scan_row ws_a ws_b k r (c # cs) acc = scan_row ws_a ws_b k r cs (acc @ [?d])"
        by (simp add: differs_def mk_record_def Let_def)
      also have "\<dots> = (acc @ [?d]) @ take (nat (max 1 (k - int (length (acc @ [?d])))))
                         (row_discrepancies ws_a ws_b r cs)"
        by (rule Cons.IH)
      finally show ?thesis
        using \<open>differs ws_a ws_b r c\<close> by (simp only: n row_discrepancies_Cons if_True take_Suc_Cons append_assoc append_Cons append_Nil)
    qed
  qed
qed

lemma discrepancies_Nil [simp]: "discrepancies ws_a ws_b [] cols = []"
  by (simp add: discrepancies_def)

lemma discrepancies_Cons:
  "discrepancies ws_a ws_b (r # rs) cols =
     row_discrepancies ws_a ws_b r cols @ discrepancies ws_a ws_b rs cols"
  by (simp add: discrepancies_def)

lemma scan_rows_below_cap:
  "int (length acc) < k \<Longrightarrow>
   scan_rows ws_a ws_b k rs cols acc =
     acc @ take (nat k - length acc) (discrepancies ws_a ws_b rs cols)"
proof (induction rs arbitrary: acc)
  case Nil
  show ?case by simp
next
  case (Cons r rs)
  let ?row = "row_discrepancies ws_a ws_b r cols"
  let ?n = "nat k - length acc"
  from Cons.prems have n: "nat (max 1 (k - int (length acc))) = ?n" by linarith
  have row: "scan_row ws_a ws_b k r cols acc = acc @ take ?n ?row"
    by (simp only: scan_row_eq n)
  define acc' where "acc' = acc @ take ?n ?row"
  have row': "scan_row ws_a ws_b k r cols acc = acc'"
    by (simp only: row acc'_def)
  show ?case
  proof (cases "?n \<le> length ?row")
    case True
    with Cons.prems have "k \<le> int (length acc')" by (simp add: acc'_def)
    then have "scan_rows ws_a ws_b k (r # rs) cols acc = acc'"
      by (simp add: row' Let_def)
    with True show ?thesis
      by (simp add: acc'_def discrepancies_Cons)
  next
    case False
    with Cons.prems have lt: "int (length acc') < k" by (simp add: acc'_def)
    then have "scan_rows ws_a ws_b k (r # rs) cols acc = scan_rows ws_a ws_b k rs cols acc'"
      by (simp add: row' Let_def)
    also have "\<dots> = acc' @ take (nat k - length acc') (discrepancies ws_a ws_b rs cols)"
      using lt by (rule Cons.IH)
    finally show ?thesis
      using False by (simp add: acc'_def discrepancies_Cons)
  qed
qed

lemma scan_rows_at_cap:
  "k \<le> int (length acc) \<Longrightarrow>
   scan_rows ws_a ws_b k (r # rs) cols acc = acc @ take 1 (row_discrepancies ws_a ws_b r cols)"
proof -
  assume k: "k \<le> int (length acc)"
  then have "nat (max 1 (k - int (length acc))) = 1" by simp
  then have "scan_row ws_a ws_b k r cols acc = acc @ take 1 (row_discrepancies ws_a ws_b r cols)"
    by (simp only: scan_row_eq)
  with k show ?thesis by (simp add: Let_def)
qed

lemma scan_rows_range_Cons: "\<exists>rs. scan_rows_range ws_a ws_b = 1 # rs"
proof -
  have "1 \<le> or_one (max_row ws_a)"
    by (simp add: or_one_def)
  then have "1 < max (or_one (max_row ws_a)) (or_one (max_row ws_b)) + 1"
    by (simp add: less_Suc_eq_le le_max_iff_disj)
  then show ?thesis
    unfolding scan_rows_range_def by (subst upt_conv_Cons) blast+
qed

lemma diff_sheet_eq:
  assumes a: "get_sheet wb_a s = Inr ws_a" and b: "get_sheet wb_b s = Inr ws_b"
  shows "diff_sheet wb_a wb_b s k = Inr (scan_result ws_a ws_b k)"
proof -
  have scan: "scan_rows ws_a ws_b k (scan_rows_range ws_a ws_b) (scan_cols_range ws_a ws_b) []
              = scan_result ws_a ws_b k"
  proof (cases "1 \<le> k")
    case True
    then have "int (length ([] :: diff_record list)) < k" by simp
    from scan_rows_below_cap [OF this] True show ?thesis
      by (simp add: scan_result_def all_discrepancies_def)
  next
    case False
    then have cap: "k \<le> int (length ([] :: diff_record list))" by simp
    obtain rs where rs: "scan_rows_range ws_a ws_b = 1 # rs"
      using scan_rows_range_Cons by blast
    have "scan_rows ws_a ws_b k (1 # rs) (scan_cols_range ws_a ws_b) [] =
            [] @ take 1 (row_discrepancies ws_a ws_b 1 (scan_cols_range ws_a ws_b))"
      by (rule scan_rows_at_cap [OF cap])
    with False show ?thesis
      by (simp only: rs scan_result_def if_False append_Nil)
  qed
  from a b have "s \<in> set (sheetnames wb_a)" "s \<in> set (sheetnames wb_b)"
    by (auto dest: get_sheet_name)
  then show ?thesis
    using scan by (simp add: diff_sheet_def a b scan_rows_range_def scan_cols_range_def Let_def)
qed

lemma diff_sheet_missing:
  "s \<notin> set (sheetnames wb_a) \<or> s \<notin> set (sheetnames wb_b) \<Longrightarrow> diff_sheet wb_a wb_b s k = Inr []"
  by (auto simp: diff_sheet_def)

lemma differs_sym: "differs ws_b ws_a r c = differs ws_a ws_b r c"
  by (auto simp: differs_def)

lemma mk_record_swap: "mk_record ws_b ws_a r c = swap_ab (mk_record ws_a ws_b r c)"
  by (simp add: mk_record_def swap_ab_def)

lemma row_discrepancies_swap:
  "row_discrepancies ws_b ws_a r cols = map swap_ab (row_discrepancies ws_a ws_b r cols)"
proof (induction cols)
  case Nil
  show ?case by simp
next
  case (Cons c cs)
  have "differs ws_b ws_a r c = differs ws_a ws_b r c"
    by (rule differs_sym)
  moreover have "mk_record ws_b ws_a r c = swap_ab (mk_record ws_a ws_b r c)"
    by (rule mk_record_swap)
  ultimately show ?case
    using Cons.IH by (simp add: row_discrepancies_Cons)
qed

lemma discrepancies_swap:
  "discrepancies ws_b ws_a rows cols = map swap_ab (discrepancies ws_a ws_b rows cols)"
proof (induction rows)
  case Nil
  show ?case by simp
next
  case (Cons r rs)
  have "row_discrepancies ws_b ws_a r cols = map swap_ab (row_discrepancies ws_a ws_b r cols)"
    by (rule row_discrepancies_swap)
  with Cons.IH show ?case
    by (simp add: discrepancies_Cons)
qed

lemma scan_ranges_sym:
  "scan_rows_range ws_b ws_a = scan_rows_range ws_a ws_b"
  "scan_cols_range ws_b ws_a = scan_cols_range ws_a ws_b"
  by (simp_all add: scan_rows_range_def scan_cols_range_def max.commute)

lemma scan_result_swap: "scan_result ws_b ws_a k = map swap_ab (scan_result ws_a ws_b k)"
proof -
  have "all_discrepancies ws_b ws_a = map swap_ab (all_discrepancies ws_a ws_b)"
    unfolding all_discrepancies_def scan_ranges_sym [of ws_b ws_a]
    by (rule discrepancies_swap)
  moreover have "row_discrepancies ws_b ws_a 1 (scan_cols_range ws_b ws_a) =
      map swap_ab (row_discrepancies ws_a ws_b 1 (scan_cols_range ws_a ws_b))"
    unfolding scan_ranges_sym [of ws_b ws_a] by (rule row_discrepancies_swap)
  ultimately show ?thesis
    by (simp add: scan_result_def take_map)
qed

lemma row_discrepancies_coord:
  "(\<exists>d \<in> set (row_discrepancies ws_a ws_b r cols). Row d = r' \<and> Col d = c) \<longleftrightarrow>
     r' = r \<and> c \<in> set cols \<and> differs ws_a ws_b r c"
  by (auto simp: row_discrepancies_def mk_record_def)

lemma discrepancies_coord:
  "(\<exists>d \<in> set (discrepancies ws_a ws_b rows cols). Row d = r \<and> Col d = c) \<longleftrightarrow>
     r \<in> set rows \<and> c \<in> set cols \<and> differs ws_a ws_b r c"
proof -
  have "(\<exists>d \<in> set (discrepancies ws_a ws_b rows cols). Row d = r \<and> Col d = c) \<longleftrightarrow>
        (\<exists>r0 \<in> set rows. \<exists>d \<in> set (row_discrepancies ws_a ws_b r0 cols). Row d = r \<and> Col d = c)"
    by (auto simp: discrepancies_def)
  then show ?thesis
    by (simp only: row_discrepancies_coord) blast
qed

lemma discrepancies_records:
  "d \<in> set (discrepancies ws_a ws_b rows cols) \<Longrightarrow>
     d = mk_record ws_a ws_b (Row d) (Col d) \<and> Row d \<in> set rows \<and> Col d \<in> set cols
     \<and> differs ws_a ws_b (Row d) (Col d)"
  by (auto simp: discrepancies_def row_discrepancies_def mk_record_def)

lemma row_discrepancies_sorted:
  "sorted_wrt (<) cols \<Longrightarrow> sorted_wrt row_major (row_discrepancies ws_a ws_b r cols)"
proof -
  assume "sorted_wrt (<) cols"
  then have "sorted_wrt (<) (filter (differs ws_a ws_b r) cols)"
    by (rule sorted_wrt_filter)
  then show ?thesis
    by (simp add: row_discrepancies_def sorted_wrt_map row_major_def mk_record_def)
qed

lemma discrepancies_sorted:
  "sorted_wrt (<) rows \<Longrightarrow> sorted_wrt (<) cols \<Longrightarrow>
     sorted_wrt row_major (discrepancies ws_a ws_b rows cols)"
proof (induction rows)
  case Nil
  show ?case by simp
next
  case (Cons r rs)
  have cross: "row_major d e"
    if "d \<in> set (row_discrepancies ws_a ws_b r cols)" "e \<in> set (discrepancies ws_a ws_b rs cols)"
    for d e
  proof -
    from that(1) have "Row d = r" by (auto simp: row_discrepancies_def mk_record_def)
    moreover from that(2) have "Row e \<in> set rs" by (auto dest: discrepancies_records)
    ultimately show ?thesis using Cons.prems(1) by (auto simp: row_major_def)
  qed
  from Cons show ?case
    by (auto simp: discrepancies_Cons sorted_wrt_append row_discrepancies_sorted cross)
qed

lemma all_discrepancies_sorted: "sorted_wrt row_major (all_discrepancies ws_a ws_b)"
  unfolding all_discrepancies_def scan_rows_range_def scan_cols_range_def
  by (intro discrepancies_sorted sorted_wrt_upt)

subsection \<open>Evaluation on concrete values\<close>

lemma digits_lt: "n < 10 \<Longrightarrow> digits n = [digit_char n]"
  by (simp add: digits.simps)

lemma digits_ge: "10 \<le> n \<Longrightarrow> digits n = digits (n div 10) @ [digit_char (n mod 10)]"
  by (subst digits.simps) simp

lemma get_column_letter_0: "get_column_letter 0 = []"
  by (simp add: get_column_letter.simps)

lemma get_column_letter_rem:
  "0 < c \<Longrightarrow> c mod 26 \<noteq> 0 \<Longrightarrow>
     get_column_letter c = get_column_letter (c div 26) @ [letter_char (c mod 26)]"
  by (subst get_column_letter.simps) simp

lemma get_column_letter_borrow:
  "0 < c \<Longrightarrow> c mod 26 = 0 \<Longrightarrow>
     get_column_letter c = get_column_letter (c div 26 - 1) @ [letter_char 26]"
  by (subst get_column_letter.simps) simp

lemmas eval_simps =
  digits_lt digits_ge digit_char_def get_column_letter_0 get_column_letter_rem
  get_column_letter_borrow letter_char_def str_int_def strip_def py_isspace_def
  py_round_def eps_def Let_def cell_value_at_def differs_def mk_record_def
  row_discrepancies_def discrepancies_def all_discrepancies_def scan_rows_range_def
  scan_cols_range_def or_one_def upt_conv_Cons

lemma letters: "get_column_letter 1 = ''A''" "get_column_letter 26 = ''Z''" "get_column_letter 27 = ''AA''"
  "get_column_letter 52 = ''AZ''" "get_column_letter 703 = ''AAA''" "get_column_letter 18278 = ''ZZZ''"
  by (simp_all add: eval_simps)

lemma norm_examples:
  "norm_cell (VStr ''Alice'') = ''Alice''" "norm_cell (VFloat 1) = ''1''" "norm_cell (VInt 1) = ''1''"
  by (simp_all add: eval_simps)

lemma all_ab: "all_discrepancies rota_a rota_b =
    [\<lparr>Cell = ''B2'', Row = 2, Col = 2, A_val = ''Alice'', B_val = ''Bob''\<rparr>]"
  by (simp add: eval_simps rota_a_def rota_b_def)

lemma all_ac: "all_discrepancies rota_a rota_c =
    [\<lparr>Cell = ''A1'', Row = 1, Col = 1, A_val = ''Name'', B_val = ''Staff''\<rparr>,
     \<lparr>Cell = ''B2'', Row = 2, Col = 2, A_val = ''Alice'', B_val = ''Bob''\<rparr>]"
  by (simp add: eval_simps rota_a_def rota_c_def)

lemma row1_ab: "row_discrepancies rota_a rota_b 1 (scan_cols_range rota_a rota_b) = []"
  by (simp add: eval_simps rota_a_def rota_b_def)

lemma sheets: "get_sheet example_a ''Rota'' = Inr rota_a" "get_sheet example_b ''Rota'' = Inr rota_b"
  "get_sheet example_c ''Rota'' = Inr rota_c"
  by (simp_all add: example_a_def example_b_def example_c_def)

subsection \<open>What the scan returns\<close>

lemma take1_all_discrepancies:
  assumes "row_discrepancies ws_a ws_b 1 (scan_cols_range ws_a ws_b) \<noteq> []"
  shows "take 1 (all_discrepancies ws_a ws_b) =
         take 1 (row_discrepancies ws_a ws_b 1 (scan_cols_range ws_a ws_b))"
proof -
  obtain rs where "scan_rows_range ws_a ws_b = 1 # rs"
    using scan_rows_range_Cons by blast
  then have "all_discrepancies ws_a ws_b =
      row_discrepancies ws_a ws_b 1 (scan_cols_range ws_a ws_b) @
      discrepancies ws_a ws_b rs (scan_cols_range ws_a ws_b)"
    by (simp only: all_discrepancies_def discrepancies_Cons)
  with assms show ?thesis
    by (cases "row_discrepancies ws_a ws_b 1 (scan_cols_range ws_a ws_b)") simp_all
qed

lemma row_discrepancies_empty_iff:
  "row_discrepancies ws_a ws_b r cols = [] \<longleftrightarrow> \<not> (\<exists>c \<in> set cols. differs ws_a ws_b r c)"
  by (auto simp: row_discrepancies_def filter_empty_conv)

lemma scan_result_length: "int (length (scan_result ws_a ws_b k)) \<le> max k 1"
  by (auto simp: scan_result_def min_def)

lemma scan_result_sorted: "sorted_wrt row_major (scan_result ws_a ws_b k)"
proof (cases "1 \<le> k")
  case True
  then show ?thesis
    by (simp add: scan_result_def sorted_wrt_take all_discrepancies_sorted)
next
  case False
  have "sorted_wrt row_major (row_discrepancies ws_a ws_b 1 (scan_cols_range ws_a ws_b))"
    unfolding scan_cols_range_def by (intro row_discrepancies_sorted sorted_wrt_upt)
  with False show ?thesis
    by (simp add: scan_result_def sorted_wrt_take del: One_nat_def)
qed

lemma in_scan_rows_range:
  "r \<in> set (scan_rows_range ws_a ws_b) \<longleftrightarrow>
     1 \<le> r \<and> r \<le> max (or_one (max_row ws_a)) (or_one (max_row ws_b))"
  by (auto simp: scan_rows_range_def)

lemma in_scan_cols_range:
  "c \<in> set (scan_cols_range ws_a ws_b) \<longleftrightarrow>
     1 \<le> c \<and> c \<le> max (or_one (max_column ws_a)) (or_one (max_column ws_b))"
  by (auto simp: scan_cols_range_def)

lemma or_one_ge: "x \<le> or_one x"
  by (simp add: or_one_def)

lemma max_or_one_ge: "max x y \<le> max (or_one x) (or_one y)"
  by (rule max.mono) (rule or_one_ge)+

lemma absent_cell: "cells ws (r, c) = None \<Longrightarrow> norm_cell (cell_value_at ws r c) = []"
  by (simp add: cell_value_at_def)

text \<open>
  C1: on a sheet that both workbooks have, \<^verbatim>\<open>diff_sheet\<close> returns a table, and when the table
  has fewer records than the cap, a coordinate with \<open>1 \<le> row \<le> max(maxRowA, maxRowB)\<close> and
  \<open>1 \<le> col \<le> max(maxColA, maxColB)\<close> is among its records exactly when the normalised values
  of the two cells there differ. Every record, truncated table or not, sits on a differing
  coordinate and carries the two normalised values. A coordinate that stores no cell
  normalises to the empty string.
\<close>

theorem diff_sheet_complete:
  assumes "get_sheet wb_a s = Inr ws_a" and "get_sheet wb_b s = Inr ws_b"
  shows "\<exists>result. diff_sheet wb_a wb_b s k = Inr result \<and>
    (int (length result) < k \<longrightarrow>
       (\<forall>r c. 1 \<le> r \<and> r \<le> max (max_row ws_a) (max_row ws_b) \<and>
              1 \<le> c \<and> c \<le> max (max_column ws_a) (max_column ws_b) \<longrightarrow>
          ((\<exists>d \<in> set result. Row d = r \<and> Col d = c) \<longleftrightarrow>
           norm_cell (cell_value_at ws_a r c) \<noteq> norm_cell (cell_value_at ws_b r c)))) \<and>
    (\<forall>d \<in> set result.
       norm_cell (cell_value_at ws_a (Row d) (Col d)) \<noteq> norm_cell (cell_value_at ws_b (Row d) (Col d)) \<and>
       A_val d = norm_cell (cell_value_at ws_a (Row d) (Col d)) \<and>
       B_val d = norm_cell (cell_value_at ws_b (Row d) (Col d))) \<and>
    (\<forall>r c. cells ws_a (r, c) = None \<longrightarrow> norm_cell (cell_value_at ws_a r c) = []) \<and>
    (\<forall>r c. cells ws_b (r, c) = None \<longrightarrow> norm_cell (cell_value_at ws_b r c) = [])"
proof -
  let ?res = "scan_result ws_a ws_b k"
  have res: "diff_sheet wb_a wb_b s k = Inr ?res"
    using assms by (rule diff_sheet_eq)
  have sub: "set ?res \<subseteq> set (all_discrepancies ws_a ws_b)"
  proof (cases "1 \<le> k")
    case True
    then show ?thesis by (auto simp: scan_result_def dest: in_set_takeD)
  next
    case False
    obtain rs where "scan_rows_range ws_a ws_b = 1 # rs"
      using scan_rows_range_Cons by blast
    then have "set (row_discrepancies ws_a ws_b 1 (scan_cols_range ws_a ws_b))
                 \<subseteq> set (all_discrepancies ws_a ws_b)"
      by (simp only: all_discrepancies_def discrepancies_Cons set_append) blast
    with False show ?thesis
      by (auto simp: scan_result_def simp del: One_nat_def dest: in_set_takeD)
  qed
  have complete: "(\<exists>d \<in> set ?res. Row d = r \<and> Col d = c) \<longleftrightarrow>
           norm_cell (cell_value_at ws_a r c) \<noteq> norm_cell (cell_value_at ws_b r c)"
    if lt: "int (length ?res) < k"
      and rc: "1 \<le> r \<and> r \<le> max (max_row ws_a) (max_row ws_b) \<and>
              1 \<le> c \<and> c \<le> max (max_column ws_a) (max_column ws_b)"
    for r c
  proof -
    from lt have k: "1 \<le> k" by linarith
    with lt have "?res = all_discrepancies ws_a ws_b"
      by (simp add: scan_result_def)
    moreover have "r \<in> set (scan_rows_range ws_a ws_b)"
    proof -
      from rc have "r \<le> max (max_row ws_a) (max_row ws_b)" by simp
      then have "r \<le> max (or_one (max_row ws_a)) (or_one (max_row ws_b))"
        by (rule order_trans) (rule max_or_one_ge)
      with rc show ?thesis by (simp add: in_scan_rows_range)
    qed
    moreover have "c \<in> set (scan_cols_range ws_a ws_b)"
    proof -
      from rc have "c \<le> max (max_column ws_a) (max_column ws_b)" by simp
      then have "c \<le> max (or_one (max_column ws_a)) (or_one (max_column ws_b))"
        by (rule order_trans) (rule max_or_one_ge)
      with rc show ?thesis by (simp add: in_scan_cols_range)
    qed
    ultimately show ?thesis
      by (simp add: all_discrepancies_def discrepancies_coord differs_def)
  qed
  have sound: "norm_cell (cell_value_at ws_a (Row d) (Col d)) \<noteq> norm_cell (cell_value_at ws_b (Row d) (Col d)) \<and>
       A_val d = norm_cell (cell_value_at ws_a (Row d) (Col d)) \<and>
       B_val d = norm_cell (cell_value_at ws_b (Row d) (Col d))"
    if "d \<in> set ?res" for d
  proof -
    from that sub have "d \<in> set (all_discrepancies ws_a ws_b)" by blast
    then have "d = mk_record ws_a ws_b (Row d) (Col d)" "differs ws_a ws_b (Row d) (Col d)"
      unfolding all_discrepancies_def by (auto dest: discrepancies_records)
    then show ?thesis
      by (metis differs_def mk_record_def diff_record.select_convs(4,5))
  qed
  show ?thesis
    using res complete sound by (intro exI [of _ ?res] conjI) (auto simp: absent_cell)
qed

lemma diff_ab_5000:
  "diff_sheet example_a example_b ''Rota'' 5000 =
     Inr [\<lparr>Cell = ''B2'', Row = 2, Col = 2, A_val = ''Alice'', B_val = ''Bob''\<rparr>]"
  by (simp add: diff_sheet_eq [OF sheets(1) sheets(2)] scan_result_def all_ab)

lemma diff_ab_0: "diff_sheet example_a example_b ''Rota'' 0 = Inr []"
  by (simp add: diff_sheet_eq [OF sheets(1) sheets(2)] scan_result_def row1_ab del: One_nat_def)

lemma row1_ac: "row_discrepancies rota_a rota_c 1 (scan_cols_range rota_a rota_c) =
    [\<lparr>Cell = ''A1'', Row = 1, Col = 1, A_val = ''Name'', B_val = ''Staff''\<rparr>]"
  by (simp add: eval_simps rota_a_def rota_c_def)

lemma diff_ac_0:
  "diff_sheet example_a example_c ''Rota'' 0 =
     Inr [\<lparr>Cell = ''A1'', Row = 1, Col = 1, A_val = ''Name'', B_val = ''Staff''\<rparr>]"
  by (simp add: diff_sheet_eq [OF sheets(1) sheets(3)] scan_result_def row1_ac del: One_nat_def)

lemma diff_ac_1:
  "diff_sheet example_a example_c ''Rota'' 1 =
     Inr [\<lparr>Cell = ''A1'', Row = 1, Col = 1, A_val = ''Name'', B_val = ''Staff''\<rparr>]"
  by (simp add: diff_sheet_eq [OF sheets(1) sheets(3)] scan_result_def all_ac)

lemma differs_ab_22: "differs rota_a rota_b 2 2"
  by (simp add: eval_simps rota_a_def rota_b_def)

text \<open>
  The example workbooks with the default cap: the one record is B2, and the blank A2 of
  the first workbook reads as the empty string.
\<close>

theorem diff_sheet_complete_witness:
  "get_sheet example_a ''Rota'' = Inr rota_a \<and> get_sheet example_b ''Rota'' = Inr rota_b \<and>
   (\<exists>result. diff_sheet example_a example_b ''Rota'' 5000 = Inr result \<and>
      int (length result) < 5000 \<and>
      (\<exists>d \<in> set result. Row d = 2 \<and> Col d = 2) \<and>
      norm_cell (cell_value_at rota_a 2 2) \<noteq> norm_cell (cell_value_at rota_b 2 2) \<and>
      cells rota_a (1, 2) = None \<and> norm_cell (cell_value_at rota_a 1 2) = [])"
proof -
  note a = sheets(1) and b = sheets(2)
  from diff_sheet_complete [OF a b, of 5000] obtain result where
    r: "diff_sheet example_a example_b ''Rota'' 5000 = Inr result"
    and c: "int (length result) < 5000 \<longrightarrow>
       (\<forall>r c. 1 \<le> r \<and> r \<le> max (max_row rota_a) (max_row rota_b) \<and>
              1 \<le> c \<and> c \<le> max (max_column rota_a) (max_column rota_b) \<longrightarrow>
          ((\<exists>d \<in> set result. Row d = r \<and> Col d = c) \<longleftrightarrow>
           norm_cell (cell_value_at rota_a r c) \<noteq> norm_cell (cell_value_at rota_b r c)))"
    and e: "\<forall>r c. cells rota_a (r, c) = None \<longrightarrow> norm_cell (cell_value_at rota_a r c) = []"
    by blast
  from r have "result = [\<lparr>Cell = ''B2'', Row = 2, Col = 2, A_val = ''Alice'', B_val = ''Bob''\<rparr>]"
    by (simp add: diff_ab_5000)
  then have len: "int (length result) < 5000"
    by simp
  have rng: "(1::nat) \<le> 2 \<and> 2 \<le> max (max_row rota_a) (max_row rota_b) \<and>
             (1::nat) \<le> 2 \<and> 2 \<le> max (max_column rota_a) (max_column rota_b)"
    by (simp add: rota_a_def rota_b_def)
  have ne: "norm_cell (cell_value_at rota_a 2 2) \<noteq> norm_cell (cell_value_at rota_b 2 2)"
    using differs_ab_22 by (simp add: differs_def)
  from c len rng ne have "\<exists>d \<in> set result. Row d = 2 \<and> Col d = 2"
    by blast
  moreover have none: "cells rota_a (1, 2) = None"
    by (simp add: rota_a_def)
  moreover from e none have "norm_cell (cell_value_at rota_a 1 2) = []"
    by blast
  ultimately show ?thesis
    using a b r len ne by blast
qed

text \<open>
  C7: with the two workbooks exchanged, for any sheet name and cap, \<^verbatim>\<open>diff_sheet\<close> returns
  records with the same Cell, Row and Col in the same order, and with the A and B values
  exchanged.
\<close>

theorem diff_sheet_swap:
  "\<exists>ds ds'. diff_sheet wb_a wb_b s k = Inr ds \<and> diff_sheet wb_b wb_a s k = Inr ds' \<and>
     map (\<lambda>d. (Cell d, Row d, Col d)) ds' = map (\<lambda>d. (Cell d, Row d, Col d)) ds \<and>
     map A_val ds' = map B_val ds \<and> map B_val ds' = map A_val ds"
proof -
  have fields: "map (\<lambda>d. (Cell d, Row d, Col d)) (map swap_ab ds) = map (\<lambda>d. (Cell d, Row d, Col d)) ds \<and>
     map A_val (map swap_ab ds) = map B_val ds \<and> map B_val (map swap_ab ds) = map A_val ds"
    for ds
    by (simp add: swap_ab_def comp_def)
  show ?thesis
  proof (cases "s \<in> set (sheetnames wb_a) \<and> s \<in> set (sheetnames wb_b)")
    case True
    then obtain ws_a ws_b where a: "get_sheet wb_a s = Inr ws_a" and b: "get_sheet wb_b s = Inr ws_b"
      using get_sheet_present by blast
    have "diff_sheet wb_a wb_b s k = Inr (scan_result ws_a ws_b k)"
      using a b by (rule diff_sheet_eq)
    moreover have "diff_sheet wb_b wb_a s k = Inr (map swap_ab (scan_result ws_a ws_b k))"
      using diff_sheet_eq [OF b a, of k] scan_result_swap [of ws_b ws_a k] by simp
    ultimately show ?thesis
      using fields [of "scan_result ws_a ws_b k"] by blast
  next
    case False
    then have "diff_sheet wb_a wb_b s k = Inr []" "diff_sheet wb_b wb_a s k = Inr []"
      by (auto simp: diff_sheet_missing)
    then show ?thesis by simp
  qed
qed

text \<open>
  The example workbooks exchanged: the one record is again B2, now with Bob as the A value
  and Alice as the B value.
\<close>

theorem diff_sheet_swap_witness:
  "\<exists>ds'. diff_sheet example_b example_a ''Rota'' 5000 = Inr ds' \<and>
     map (\<lambda>d. (Cell d, Row d, Col d)) ds' = [(''B2'', 2, 2)] \<and>
     map A_val ds' = [''Bob''] \<and> map B_val ds' = [''Alice'']"
proof -
  from diff_sheet_swap [of example_a example_b "''Rota''" 5000] obtain ds ds' where
    "diff_sheet example_a example_b ''Rota'' 5000 = Inr ds"
    "diff_sheet example_b example_a ''Rota'' 5000 = Inr ds'"
    "map (\<lambda>d. (Cell d, Row d, Col d)) ds' = map (\<lambda>d. (Cell d, Row d, Col d)) ds"
    "map A_val ds' = map B_val ds" "map B_val ds' = map A_val ds"
    by blast
  moreover from this(1)
  have "ds = [\<lparr>Cell = ''B2'', Row = 2, Col = 2, A_val = ''Alice'', B_val = ''Bob''\<rparr>]"
    by (simp add: diff_ab_5000)
  ultimately show ?thesis by simp
qed

lemma no_discrepancies:
  assumes "\<not> (\<exists>r \<in> set rows. \<exists>c \<in> set cols. differs ws_a ws_b r c)"
  shows "discrepancies ws_a ws_b rows cols = []"
proof -
  have "row_discrepancies ws_a ws_b r cols = []" if "r \<in> set rows" for r
    using assms that by (simp only: row_discrepancies_empty_iff) blast
  then show ?thesis
    by (simp add: discrepancies_def)
qed

lemma scan_result_no_difference:
  assumes "\<not> (\<exists>r \<in> set (scan_rows_range ws_a ws_b). \<exists>c \<in> set (scan_cols_range ws_a ws_b).
             differs ws_a ws_b r c)"
  shows "scan_result ws_a ws_b k = []"
proof -
  have all: "all_discrepancies ws_a ws_b = []"
    unfolding all_discrepancies_def using assms by (rule no_discrepancies)
  obtain rs where "scan_rows_range ws_a ws_b = 1 # rs"
    using scan_rows_range_Cons by blast
  then have "1 \<in> set (scan_rows_range ws_a ws_b)"
    by simp
  with assms have "\<not> (\<exists>c \<in> set (scan_cols_range ws_a ws_b). differs ws_a ws_b 1 c)"
    by blast
  then have "row_discrepancies ws_a ws_b 1 (scan_cols_range ws_a ws_b) = []"
    by (simp only: row_discrepancies_empty_iff simp_thms)
  with all show ?thesis
    by (simp add: scan_result_def del: One_nat_def)
qed

text \<open>
  C8: for a sheet name that one of the workbooks lacks, \<^verbatim>\<open>diff_sheet\<close> returns the empty
  table, whatever else the workbooks hold. On a worksheet that both workbooks have it
  returns a table, and the empty table when no coordinate of the scan range differs.
  Workbooks without a common name have the empty list of common sheets; a coordinate
  without a cell normalises to the empty string; and the empty table has the all-zero
  summary and empty rankings.
\<close>

theorem no_data_no_error:
  "(s \<notin> set (sheetnames wb_a) \<or> s \<notin> set (sheetnames wb_b) \<longrightarrow> diff_sheet wb_a wb_b s k = Inr [])
   \<and> (get_sheet wb_a s = Inr ws_a \<and> get_sheet wb_b s = Inr ws_b \<longrightarrow>
        (\<exists>ds. diff_sheet wb_a wb_b s k = Inr ds))
   \<and> (get_sheet wb_a s = Inr ws_a \<and> get_sheet wb_b s = Inr ws_b \<and>
        \<not> (\<exists>r \<in> set (scan_rows_range ws_a ws_b). \<exists>c \<in> set (scan_cols_range ws_a ws_b).
             norm_cell (cell_value_at ws_a r c) \<noteq> norm_cell (cell_value_at ws_b r c)) \<longrightarrow>
        diff_sheet wb_a wb_b s k = Inr [])
   \<and> (set (sheetnames wb_a) \<inter> set (sheetnames wb_b) = {} \<longrightarrow> common_sheets wb_a wb_b = [])
   \<and> (cells ws (r, c) = None \<longrightarrow> norm_cell (cell_value_at ws r c) = [])
   \<and> diff_summary [] = \<lparr>changed_cells = 0, changed_rows = 0, changed_cols = 0\<rparr>
   \<and> top_changed_rows srt [] n = []
   \<and> top_changed_cols srt [] n = []"
proof -
  have missing: "s \<notin> set (sheetnames wb_a) \<or> s \<notin> set (sheetnames wb_b) \<longrightarrow>
      diff_sheet wb_a wb_b s k = Inr []"
    by (auto simp: diff_sheet_missing)
  have table: "get_sheet wb_a s = Inr ws_a \<and> get_sheet wb_b s = Inr ws_b \<longrightarrow>
      (\<exists>ds. diff_sheet wb_a wb_b s k = Inr ds)"
    by (auto dest: diff_sheet_eq)
  have equal: "get_sheet wb_a s = Inr ws_a \<and> get_sheet wb_b s = Inr ws_b \<and>
        \<not> (\<exists>r \<in> set (scan_rows_range ws_a ws_b). \<exists>c \<in> set (scan_cols_range ws_a ws_b).
             norm_cell (cell_value_at ws_a r c) \<noteq> norm_cell (cell_value_at ws_b r c)) \<longrightarrow>
        diff_sheet wb_a wb_b s k = Inr []"
  proof (intro impI, elim conjE)
    assume a: "get_sheet wb_a s = Inr ws_a" and b: "get_sheet wb_b s = Inr ws_b"
      and "\<not> (\<exists>r \<in> set (scan_rows_range ws_a ws_b). \<exists>c \<in> set (scan_cols_range ws_a ws_b).
             norm_cell (cell_value_at ws_a r c) \<noteq> norm_cell (cell_value_at ws_b r c))"
    then have "\<not> (\<exists>r \<in> set (scan_rows_range ws_a ws_b). \<exists>c \<in> set (scan_cols_range ws_a ws_b).
             differs ws_a ws_b r c)"
      by (simp only: differs_def simp_thms)
    then have "scan_result ws_a ws_b k = []"
      by (rule scan_result_no_difference)
    with diff_sheet_eq [OF a b, of k] show "diff_sheet wb_a wb_b s k = Inr []"
      by simp
  qed
  have none: "set (sheetnames wb_a) \<inter> set (sheetnames wb_b) = {} \<longrightarrow> common_sheets wb_a wb_b = []"
    by (auto simp: common_sheets_def filter_empty_conv)
  have absent: "cells ws (r, c) = None \<longrightarrow> norm_cell (cell_value_at ws r c) = []"
    by (simp add: absent_cell)
  have empty: "diff_summary [] = \<lparr>changed_cells = 0, changed_rows = 0, changed_cols = 0\<rparr>"
    "top_changed_rows srt [] n = []" "top_changed_cols srt [] n = []"
    by (simp_all add: diff_summary_def top_changed_rows_def top_changed_cols_def)
  from missing table equal none absent empty show ?thesis
    by (intro conjI)
qed

text \<open>
  The sheet Notes, which only the first example workbook has; the worksheet Rota of the
  two example workbooks; the first example workbook against itself, where nothing differs;
  two workbooks with no name in common; and the cell A1 of a blank sheet.
\<close>

theorem no_data_no_error_witness:
  "''Notes'' \<notin> set (sheetnames example_b)
   \<and> diff_sheet example_a example_b ''Notes'' 5000 = Inr []
   \<and> get_sheet example_a ''Rota'' = Inr rota_a
   \<and> get_sheet example_b ''Rota'' = Inr rota_b
   \<and> (\<exists>ds. diff_sheet example_a example_b ''Rota'' 5000 = Inr ds)
   \<and> \<not> (\<exists>r \<in> set (scan_rows_range rota_a rota_a). \<exists>c \<in> set (scan_cols_range rota_a rota_a).
          norm_cell (cell_value_at rota_a r c) \<noteq> norm_cell (cell_value_at rota_a r c))
   \<and> diff_sheet example_a example_a ''Rota'' 5000 = Inr []
   \<and> set (sheetnames [(''Notes'', blank_sheet)]) \<inter> set (sheetnames [(''Audit'', blank_sheet)]) = {}
   \<and> common_sheets [(''Notes'', blank_sheet)] [(''Audit'', blank_sheet)] = []
   \<and> cells blank_sheet (1, 1) = None
   \<and> norm_cell (cell_value_at blank_sheet 1 1) = []"
proof -
  note a = sheets(1) and b = sheets(2)
  have 1: "''Notes'' \<notin> set (sheetnames example_b)"
    by (simp add: sheetnames_def example_b_def)
  have 2: "set (sheetnames [(''Notes'', blank_sheet)]) \<inter> set (sheetnames [(''Audit'', blank_sheet)]) = {}"
    by (simp add: sheetnames_def)
  have 3: "cells blank_sheet (1, 1) = None"
    by (simp add: blank_sheet_def)
  have 4: "\<not> (\<exists>r \<in> set (scan_rows_range rota_a rota_a). \<exists>c \<in> set (scan_cols_range rota_a rota_a).
          norm_cell (cell_value_at rota_a r c) \<noteq> norm_cell (cell_value_at rota_a r c))"
    by simp
  from 1 no_data_no_error [of "''Notes''" example_a example_b 5000]
  have 5: "diff_sheet example_a example_b ''Notes'' 5000 = Inr []" by blast
  from a b no_data_no_error [of "''Rota''" example_a example_b 5000 rota_a rota_b]
  have 6: "\<exists>ds. diff_sheet example_a example_b ''Rota'' 5000 = Inr ds" by blast
  from a 4 no_data_no_error [of "''Rota''" example_a example_a 5000 rota_a rota_a]
  have 7: "diff_sheet example_a example_a ''Rota'' 5000 = Inr []" by blast
  from 2 no_data_no_error [of _ "[(''Notes'', blank_sheet)]" "[(''Audit'', blank_sheet)]"]
  have 8: "common_sheets [(''Notes'', blank_sheet)] [(''Audit'', blank_sheet)] = []" by blast
  from 3 no_data_no_error [where ws = blank_sheet and r = 1 and c = 1]
  have 9: "norm_cell (cell_value_at blank_sheet 1 1) = []" by blast
  from 1 5 a b 6 4 7 2 8 3 9 show ?thesis
    by (intro conjI)
qed

text \<open>
  C2, amended: for every cap the returned records are in row-major order. For a cap
  \<open>k \<ge> 1\<close> the result is the first \<open>k\<close> discrepancies of the scan range in row-major order,
  so that it has exactly \<open>k\<close> records when more than \<open>k\<close> coordinates differ. Here
  \<open>all_discrepancies\<close> is the row-major list of the differing coordinates of the scan range:
  it is strictly ordered and holds a coordinate exactly when that coordinate is in range
  and its two cells differ.
\<close>

theorem diff_sheet_cap:
  assumes "get_sheet wb_a s = Inr ws_a" and "get_sheet wb_b s = Inr ws_b"
  shows "\<exists>result. diff_sheet wb_a wb_b s k = Inr result \<and>
    sorted_wrt row_major result \<and>
    (1 \<le> k \<longrightarrow> result = take (nat k) (all_discrepancies ws_a ws_b)) \<and>
    (1 \<le> k \<and> k < int (length (all_discrepancies ws_a ws_b)) \<longrightarrow> int (length result) = k) \<and>
    sorted_wrt row_major (all_discrepancies ws_a ws_b) \<and>
    (\<forall>r c. (\<exists>d \<in> set (all_discrepancies ws_a ws_b). Row d = r \<and> Col d = c) \<longleftrightarrow>
       r \<in> set (scan_rows_range ws_a ws_b) \<and> c \<in> set (scan_cols_range ws_a ws_b) \<and>
       norm_cell (cell_value_at ws_a r c) \<noteq> norm_cell (cell_value_at ws_b r c))"
proof -
  let ?res = "scan_result ws_a ws_b k"
  have "diff_sheet wb_a wb_b s k = Inr ?res"
    using assms by (rule diff_sheet_eq)
  moreover have "sorted_wrt row_major ?res"
    by (rule scan_result_sorted)
  moreover have "1 \<le> k \<longrightarrow> ?res = take (nat k) (all_discrepancies ws_a ws_b)"
    by (simp add: scan_result_def)
  moreover have "1 \<le> k \<and> k < int (length (all_discrepancies ws_a ws_b)) \<longrightarrow> int (length ?res) = k"
    by (auto simp: scan_result_def min_def)
  moreover have "sorted_wrt row_major (all_discrepancies ws_a ws_b)"
    by (rule all_discrepancies_sorted)
  moreover have "\<forall>r c. (\<exists>d \<in> set (all_discrepancies ws_a ws_b). Row d = r \<and> Col d = c) \<longleftrightarrow>
       r \<in> set (scan_rows_range ws_a ws_b) \<and> c \<in> set (scan_cols_range ws_a ws_b) \<and>
       norm_cell (cell_value_at ws_a r c) \<noteq> norm_cell (cell_value_at ws_b r c)"
    by (simp add: all_discrepancies_def discrepancies_coord differs_def)
  ultimately show ?thesis by blast
qed

text \<open>
  The first and the third example workbook differ in A1 and B2; with the cap 1 the result
  is the record of A1.
\<close>

theorem diff_sheet_cap_witness:
  "get_sheet example_a ''Rota'' = Inr rota_a \<and> get_sheet example_c ''Rota'' = Inr rota_c \<and>
   (1::int) \<le> 1 \<and> 1 < int (length (all_discrepancies rota_a rota_c)) \<and>
   (\<exists>result. diff_sheet example_a example_c ''Rota'' 1 = Inr result \<and>
      int (length result) = 1 \<and> result = take (nat 1) (all_discrepancies rota_a rota_c) \<and>
      result = [\<lparr>Cell = ''A1'', Row = 1, Col = 1, A_val = ''Name'', B_val = ''Staff''\<rparr>])"
proof -
  note a = sheets(1) and c = sheets(3)
  have len: "(1::int) \<le> 1 \<and> 1 < int (length (all_discrepancies rota_a rota_c))"
    by (simp add: all_ac)
  from diff_sheet_cap [OF a c, of 1] obtain result where
    r: "diff_sheet example_a example_c ''Rota'' 1 = Inr result"
    and t: "1 \<le> (1::int) \<longrightarrow> result = take (nat 1) (all_discrepancies rota_a rota_c)"
    and n: "1 \<le> (1::int) \<and> 1 < int (length (all_discrepancies rota_a rota_c)) \<longrightarrow> int (length result) = 1"
    by blast
  from t have t': "result = take (nat 1) (all_discrepancies rota_a rota_c)" by simp
  then have "result = [\<lparr>Cell = ''A1'', Row = 1, Col = 1, A_val = ''Name'', B_val = ''Staff''\<rparr>]"
    by (simp add: all_ac)
  with a c len r t' n show ?thesis by blast
qed

text \<open>
  C2 as stated fails for a cap below 1: with the cap 0 on the first and third example
  workbooks two coordinates differ, which is more than 0, and the result has one record,
  not zero.
\<close>

theorem diff_sheet_cap_zero_counterexample:
  "get_sheet example_a ''Rota'' = Inr rota_a \<and> get_sheet example_c ''Rota'' = Inr rota_c \<and>
   length (all_discrepancies rota_a rota_c) = 2 \<and>
   diff_sheet example_a example_c ''Rota'' 0 =
     Inr [\<lparr>Cell = ''A1'', Row = 1, Col = 1, A_val = ''Name'', B_val = ''Staff''\<rparr>]"
  by (simp add: sheets all_ac diff_ac_0)

text \<open>
  C10, amended: the result never has more than \<open>max(max_changes, 1)\<close> records. With
  \<open>max_changes \<le> 0\<close> the scan ends with row 1, as the cap is tested again after each row:
  if a coordinate of row 1 differs, the result is exactly one record, the first
  discrepancy in row-major order; if none does, the result is empty, whatever the later
  rows hold.
\<close>

theorem diff_sheet_nonpositive_cap:
  assumes "get_sheet wb_a s = Inr ws_a" and "get_sheet wb_b s = Inr ws_b"
  shows "\<exists>result. diff_sheet wb_a wb_b s k = Inr result \<and>
    int (length result) \<le> max k 1 \<and>
    (k \<le> 0 \<and> (\<exists>c \<in> set (scan_cols_range ws_a ws_b).
        norm_cell (cell_value_at ws_a 1 c) \<noteq> norm_cell (cell_value_at ws_b 1 c)) \<longrightarrow>
       length result = 1 \<and> result = take 1 (all_discrepancies ws_a ws_b)) \<and>
    (k \<le> 0 \<and> \<not> (\<exists>c \<in> set (scan_cols_range ws_a ws_b).
        norm_cell (cell_value_at ws_a 1 c) \<noteq> norm_cell (cell_value_at ws_b 1 c)) \<longrightarrow>
       result = [])"
proof -
  let ?res = "scan_result ws_a ws_b k"
  let ?row = "row_discrepancies ws_a ws_b 1 (scan_cols_range ws_a ws_b)"
  have res: "diff_sheet wb_a wb_b s k = Inr ?res"
    using assms by (rule diff_sheet_eq)
  have low: "?res = take 1 ?row" if "k \<le> 0"
    using that by (simp add: scan_result_def del: One_nat_def)
  have some: "length ?res = 1 \<and> ?res = take 1 (all_discrepancies ws_a ws_b)"
    if k: "k \<le> 0" and d: "\<exists>c \<in> set (scan_cols_range ws_a ws_b).
        norm_cell (cell_value_at ws_a 1 c) \<noteq> norm_cell (cell_value_at ws_b 1 c)"
  proof -
    from d have ne: "?row \<noteq> []"
      by (simp only: row_discrepancies_empty_iff differs_def) blast
    then have "length (take 1 ?row) = 1"
      by (cases ?row) simp_all
    then show ?thesis
      by (simp only: low [OF k] take1_all_discrepancies [OF ne])
  qed
  have none: "?res = []"
    if k: "k \<le> 0" and d: "\<not> (\<exists>c \<in> set (scan_cols_range ws_a ws_b).
        norm_cell (cell_value_at ws_a 1 c) \<noteq> norm_cell (cell_value_at ws_b 1 c))"
  proof -
    from d have "?row = []"
      by (simp only: row_discrepancies_empty_iff differs_def) blast
    then show ?thesis
      by (simp only: low [OF k]) simp
  qed
  show ?thesis
    using res scan_result_length [of ws_a ws_b k] some none
    by (intro exI [of _ ?res]) blast
qed

text \<open>
  C10 as stated fails when the first differing coordinate lies below row 1: the two
  example workbooks differ in B2, inside the scan range, and with the cap 0 the result is
  empty rather than one record.
\<close>

theorem diff_sheet_nonpositive_cap_counterexample:
  "get_sheet example_a ''Rota'' = Inr rota_a \<and> get_sheet example_b ''Rota'' = Inr rota_b \<and>
   2 \<in> set (scan_rows_range rota_a rota_b) \<and> 2 \<in> set (scan_cols_range rota_a rota_b) \<and>
   norm_cell (cell_value_at rota_a 2 2) \<noteq> norm_cell (cell_value_at rota_b 2 2) \<and>
   diff_sheet example_a example_b ''Rota'' 0 = Inr []"
proof -
  have "2 \<in> set (scan_rows_range rota_a rota_b)" "2 \<in> set (scan_cols_range rota_a rota_b)"
    by (simp_all add: in_scan_rows_range in_scan_cols_range or_one_def rota_a_def rota_b_def)
  moreover have "norm_cell (cell_value_at rota_a 2 2) \<noteq> norm_cell (cell_value_at rota_b 2 2)"
    using differs_ab_22 by (simp add: differs_def)
  ultimately show ?thesis
    by (simp add: sheets diff_ab_0)
qed

text \<open>
  The cap 0 on the first and third example workbooks, whose row 1 differs, and on the
  first and second, whose row 1 does not.
\<close>

theorem diff_sheet_nonpositive_cap_witness:
  "get_sheet example_a ''Rota'' = Inr rota_a \<and> get_sheet example_b ''Rota'' = Inr rota_b \<and>
   get_sheet example_c ''Rota'' = Inr rota_c \<and> (0::int) \<le> 0 \<and>
   (\<exists>c \<in> set (scan_cols_range rota_a rota_c).
        norm_cell (cell_value_at rota_a 1 c) \<noteq> norm_cell (cell_value_at rota_c 1 c)) \<and>
   (\<exists>result. diff_sheet example_a example_c ''Rota'' 0 = Inr result \<and> length result = 1 \<and>
      result = take 1 (all_discrepancies rota_a rota_c)) \<and>
   \<not> (\<exists>c \<in> set (scan_cols_range rota_a rota_b).
        norm_cell (cell_value_at rota_a 1 c) \<noteq> norm_cell (cell_value_at rota_b 1 c)) \<and>
   (\<exists>result. diff_sheet example_a example_b ''Rota'' 0 = Inr result \<and> result = [])"
proof -
  note a = sheets(1) and b = sheets(2) and c = sheets(3)
  have k: "(0::int) \<le> 0" by simp
  have yes: "\<exists>c \<in> set (scan_cols_range rota_a rota_c).
        norm_cell (cell_value_at rota_a 1 c) \<noteq> norm_cell (cell_value_at rota_c 1 c)"
  proof -
    have "row_discrepancies rota_a rota_c 1 (scan_cols_range rota_a rota_c) \<noteq> []"
      by (simp only: row1_ac) simp
    then show ?thesis
      by (simp only: row_discrepancies_empty_iff differs_def) blast
  qed
  have no: "\<not> (\<exists>c \<in> set (scan_cols_range rota_a rota_b).
        norm_cell (cell_value_at rota_a 1 c) \<noteq> norm_cell (cell_value_at rota_b 1 c))"
    using row1_ab by (simp only: row_discrepancies_empty_iff differs_def) blast
  from diff_sheet_nonpositive_cap [OF a c, of 0] k yes
  have 1: "\<exists>result. diff_sheet example_a example_c ''Rota'' 0 = Inr result \<and> length result = 1 \<and>
      result = take 1 (all_discrepancies rota_a rota_c)"
    by blast
  from diff_sheet_nonpositive_cap [OF a b, of 0] k no
  have 2: "\<exists>result. diff_sheet example_a example_b ''Rota'' 0 = Inr result \<and> result = []"
    by blast
  from a b c k yes no 1 2 show ?thesis by blast
qed

subsection \<open>Hotspot ranking\<close>

lemma sorts_desc_stable: "sorts_desc stable_sort_desc"
proof -
  have "sorted_wrt (\<lambda>x y. snd y \<le> snd x) (stable_sort_desc xs)" for xs
  proof -
    have "sorted (map snd (sort_key snd (rev xs)))"
      by (rule sorted_sort_key)
    then have "sorted_wrt (\<lambda>x y. snd x \<le> snd y) (sort_key snd (rev xs))"
      by (simp add: sorted_wrt_map)
    then show ?thesis
      by (simp add: stable_sort_desc_def sorted_wrt_rev)
  qed
  moreover have "mset (stable_sort_desc xs) = mset xs" for xs
    by (simp add: stable_sort_desc_def)
  ultimately show ?thesis
    by (simp add: sorts_desc_def)
qed

lemma length_df_head: "0 \<le> n \<Longrightarrow> int (length (df_head n xs)) \<le> n"
  by (simp add: df_head_def)

lemma df_head_take: "\<exists>m. df_head n xs = take m xs"
  by (auto simp: df_head_def)

lemma sum_list_take_le: "sum_list (take m (ns :: nat list)) \<le> sum_list ns"
proof -
  have "sum_list ns = sum_list (take m ns) + sum_list (drop m ns)"
    by (metis append_take_drop_id sum_list_append)
  then show ?thesis by simp
qed

lemma count_by_key:
  "finite K \<Longrightarrow> key ` set df \<subseteq> K \<Longrightarrow>
     (\<Sum>k \<in> K. length [d \<leftarrow> df. key d = k]) = length df"
proof (induction df)
  case Nil
  then show ?case by simp
next
  case (Cons d ds)
  have "(\<Sum>k \<in> K. length [e \<leftarrow> d # ds. key e = k]) =
        (\<Sum>k \<in> K. (if k = key d then 1 else 0) + length [e \<leftarrow> ds. key e = k])"
    by (rule sum.cong) auto
  also have "\<dots> = (\<Sum>k \<in> K. if k = key d then 1 else 0) + (\<Sum>k \<in> K. length [e \<leftarrow> ds. key e = k])"
    by (rule sum.distrib)
  also have "(\<Sum>k \<in> K. if k = key d then 1 else 0) = (1::nat)"
    using Cons.prems by (simp add: sum.delta)
  also have "(\<Sum>k \<in> K. length [e \<leftarrow> ds. key e = k]) = length ds"
    using Cons.prems by (intro Cons.IH) auto
  finally show ?case by simp
qed

lemma groupby_size_keys: "map fst (groupby_size key df) = sort (remdups (map key df))"
  by (simp add: groupby_size_def comp_def)

lemma groupby_size_sum: "sum_list (map snd (groupby_size key df)) = length df"
proof -
  let ?ks = "sort (remdups (map key df))"
  have "sum_list (map snd (groupby_size key df)) =
        sum_list (map (\<lambda>k. length [d \<leftarrow> df. key d = k]) ?ks)"
    by (simp add: groupby_size_def comp_def)
  also have "\<dots> = (\<Sum>k \<in> set ?ks. length [d \<leftarrow> df. key d = k])"
    by (rule sum_list_distinct_conv_sum_set) simp
  also have "\<dots> = length df"
    by (rule count_by_key) auto
  finally show ?thesis .
qed

lemma groupby_size_entries:
  "(i, k) \<in> set (groupby_size key df) \<Longrightarrow> k = length [d \<leftarrow> df. key d = i] \<and> 0 < k"
  by (auto simp: groupby_size_def filter_empty_conv)

text \<open>The ranking of a grouped table, whichever sort satisfying \<open>sorts_desc\<close> is used.\<close>

lemma ranked:
  fixes srt :: sort_values and n :: int and key :: "diff_record \<Rightarrow> nat"
    and df :: "diff_record list"
  assumes "sorts_desc srt"
  defines "res \<equiv> df_head n (srt (groupby_size key df))"
  shows "(0 \<le> n \<longrightarrow> int (length res) \<le> n)"
    and "sorted_wrt (\<lambda>x y. snd y \<le> snd x) res"
    and "sum_list (map snd res) \<le> length df"
    and "distinct (map fst res)"
    and "\<forall>(i, k) \<in> set res. k = length [d \<leftarrow> df. key d = i] \<and> 0 < k"
proof -
  let ?g = "groupby_size key df"
  from assms(1) have m: "mset (srt ?g) = mset ?g"
    and s: "sorted_wrt (\<lambda>x y. snd y \<le> snd x) (srt ?g)"
    by (simp_all add: sorts_desc_def)
  obtain j where res: "res = take j (srt ?g)"
    unfolding res_def using df_head_take by blast
  show "0 \<le> n \<longrightarrow> int (length res) \<le> n"
    by (simp add: res_def length_df_head)
  show "sorted_wrt (\<lambda>x y. snd y \<le> snd x) res"
    using s by (simp add: res sorted_wrt_take)
  have "sum_list (map snd res) \<le> sum_list (map snd (srt ?g))"
    by (simp add: res take_map [symmetric] sum_list_take_le)
  also have "sum_list (map snd (srt ?g)) = sum_list (map snd ?g)"
  proof -
    have "mset (map snd (srt ?g)) = mset (map snd ?g)"
      using m by (metis mset_map)
    then show ?thesis by (metis sum_mset_sum_list)
  qed
  also have "\<dots> = length df"
    by (rule groupby_size_sum)
  finally show "sum_list (map snd res) \<le> length df" .
  have "mset (map fst (srt ?g)) = mset (map fst ?g)"
    using m by (metis mset_map)
  then have "distinct (map fst (srt ?g)) = distinct (map fst ?g)"
    by (rule mset_eq_imp_distinct_iff)
  then have "distinct (map fst (srt ?g))"
    by (simp add: groupby_size_keys)
  then show "distinct (map fst res)"
    by (simp add: res take_map [symmetric] distinct_take)
  have "set res \<subseteq> set ?g"
    using m by (metis res set_take_subset mset_eq_setD)
  then show "\<forall>(i, k) \<in> set res. k = length [d \<leftarrow> df. key d = i] \<and> 0 < k"
    using groupby_size_entries by fastforce
qed


lemma groupby_tie_cols: "groupby_size Col tie_table = [(1, 1), (3, 1)]"
  by (simp add: groupby_size_def tie_table_def)

lemma groupby_tie_cols': "groupby_size Col tie_table' = [(1, 1), (3, 1)]"
  by (simp add: groupby_size_def tie_table'_def)

text \<open>
  C4, amended: for every table of difference records and every count \<open>n \<ge> 0\<close>,
  \<^verbatim>\<open>top_changed_rows\<close> and \<^verbatim>\<open>top_changed_cols\<close> return at most \<open>n\<close> (index, count) pairs, sorted
  by count descending; each index occurs once, with the number of records that have it;
  the result is empty for the empty table; and the returned counts sum to at most
  \<^verbatim>\<open>changed_cells\<close>. This holds for whichever order the sort leaves among groups of equal
  count: the source asks for none.
\<close>

theorem top_changed_ranked:
  assumes "sorts_desc srt"
  shows "(0 \<le> n \<longrightarrow> int (length (top_changed_rows srt df n)) \<le> n)
     \<and> (0 \<le> n \<longrightarrow> int (length (top_changed_cols srt df n)) \<le> n)
     \<and> sorted_wrt (\<lambda>x y. snd y \<le> snd x) (top_changed_rows srt df n)
     \<and> sorted_wrt (\<lambda>x y. snd y \<le> snd x) (top_changed_cols srt df n)
     \<and> sum_list (map snd (top_changed_rows srt df n)) \<le> changed_cells (diff_summary df)
     \<and> sum_list (map snd (top_changed_cols srt df n)) \<le> changed_cells (diff_summary df)
     \<and> top_changed_rows srt [] n = [] \<and> top_changed_cols srt [] n = []
     \<and> distinct (map fst (top_changed_rows srt df n))
     \<and> distinct (map fst (top_changed_cols srt df n))
     \<and> (\<forall>(i, k) \<in> set (top_changed_rows srt df n). k = length [d \<leftarrow> df. Row d = i] \<and> 0 < k)
     \<and> (\<forall>(i, k) \<in> set (top_changed_cols srt df n). k = length [d \<leftarrow> df. Col d = i] \<and> 0 < k)"
proof (cases "df = []")
  case True
  then show ?thesis
    by (simp add: top_changed_rows_def top_changed_cols_def)
next
  case False
  then have r: "top_changed_rows srt df n = df_head n (srt (groupby_size Row df))"
    and c: "top_changed_cols srt df n = df_head n (srt (groupby_size Col df))"
    and l: "changed_cells (diff_summary df) = length df"
    by (simp_all add: top_changed_rows_def top_changed_cols_def diff_summary_def)
  show ?thesis
    unfolding r c l
    using ranked [OF assms, of n Row df] ranked [OF assms, of n Col df]
    by (simp add: top_changed_rows_def top_changed_cols_def)
qed

text \<open>
  The stable sort on the third example table with \<open>n = 1\<close>: row 2 and column 3 lead with
  two records each.
\<close>

theorem top_changed_ranked_witness:
  "sorts_desc stable_sort_desc \<and> (0::int) \<le> 1
   \<and> top_changed_rows stable_sort_desc hot_table 1 = [(2, 2)]
   \<and> top_changed_cols stable_sort_desc hot_table 1 = [(3, 2)]
   \<and> int (length (top_changed_rows stable_sort_desc hot_table 1)) \<le> 1
   \<and> sum_list (map snd (top_changed_rows stable_sort_desc hot_table 1))
        \<le> changed_cells (diff_summary hot_table)
   \<and> changed_cells (diff_summary hot_table) = 3"
proof -
  have s: "sorts_desc stable_sort_desc"
    by (rule sorts_desc_stable)
  have rows: "top_changed_rows stable_sort_desc hot_table 1 = [(2, 2)]"
    by (simp add: top_changed_rows_def groupby_size_def hot_table_def stable_sort_desc_def
        df_head_def)
  have cols: "top_changed_cols stable_sort_desc hot_table 1 = [(3, 2)]"
    by (simp add: top_changed_cols_def groupby_size_def hot_table_def stable_sort_desc_def
        df_head_def)
  have cells: "changed_cells (diff_summary hot_table) = 3"
    by (simp add: diff_summary_def hot_table_def)
  from top_changed_ranked [OF s, of 1 hot_table]
  have "int (length (top_changed_rows stable_sort_desc hot_table 1)) \<le> 1"
    and "sum_list (map snd (top_changed_rows stable_sort_desc hot_table 1))
        \<le> changed_cells (diff_summary hot_table)"
    by simp_all
  with s rows cols cells show ?thesis by simp
qed

text \<open>
  C4 as stated fails on the order of ties. The first example table meets column 3 before
  column 1, both with one record, and the ranking lists column 1 first, since the groups
  come by ascending index. No sort could restore the order of first encounter: the second
  table holds the same columns in the other order and is ranked alike by every sort. And
  a negative \<open>n\<close> does not bound the length: \<^verbatim>\<open>head(-1)\<close> drops the last row only.
\<close>

theorem top_changed_tie_order_counterexample:
  "top_changed_cols stable_sort_desc tie_table 25 = [(1, 1), (3, 1)]
   \<and> first_seen (map Col tie_table) = [3, 1]
   \<and> first_seen (map Col tie_table') = [1, 3]
   \<and> (\<forall>srt. top_changed_cols srt tie_table 25 = top_changed_cols srt tie_table' 25)
   \<and> sorts_desc stable_sort_desc
   \<and> length (top_changed_cols stable_sort_desc tie_table (- 1)) = 1"
proof -
  have "top_changed_cols stable_sort_desc tie_table 25 = [(1, 1), (3, 1)]"
    by (simp add: top_changed_cols_def groupby_size_def tie_table_def stable_sort_desc_def
        df_head_def)
  moreover have "first_seen (map Col tie_table) = [3, 1]"
    "first_seen (map Col tie_table') = [1, 3]"
    by (simp_all add: first_seen_def tie_table_def tie_table'_def)
  moreover have "\<forall>srt. top_changed_cols srt tie_table 25 = top_changed_cols srt tie_table' 25"
    by (simp add: top_changed_cols_def groupby_tie_cols groupby_tie_cols')
       (simp add: tie_table_def tie_table'_def)
  moreover have "length (top_changed_cols stable_sort_desc tie_table (- 1)) = 1"
    by (simp add: top_changed_cols_def groupby_size_def tie_table_def stable_sort_desc_def
        df_head_def)
  ultimately show ?thesis
    using sorts_desc_stable by simp
qed

subsection \<open>Normalisation\<close>

lemma plain_not_space: "ch \<in> plain_chars \<Longrightarrow> \<not> py_isspace ch"
  by (auto simp: plain_chars_def py_isspace_def)

lemma digit_char_plain: "d < 10 \<Longrightarrow> digit_char d \<in> plain_chars"
proof -
  assume "d < 10"
  then have "d \<in> {0, 1, 2, 3, 4, 5, 6, 7, 8, 9}" by auto
  then show ?thesis
    by (auto simp: digit_char_def plain_chars_def)
qed

lemma digits_plain: "set (digits n) \<subseteq> plain_chars"
proof (induction n rule: digits.induct)
  case (1 n)
  show ?case
  proof (cases "n < 10")
    case True
    then show ?thesis by (simp add: digits_lt digit_char_plain)
  next
    case False
    then have "set (digits (n div 10)) \<subseteq> plain_chars" by (rule "1.IH")
    moreover have "digit_char (n mod 10) \<in> plain_chars" by (simp add: digit_char_plain)
    ultimately show ?thesis using False by (simp add: digits_ge)
  qed
qed


lemma plain_signs:
  "CHR ''0'' \<in> plain_chars" "CHR ''.'' \<in> plain_chars" "CHR ''-'' \<in> plain_chars"
  "CHR ''+'' \<in> plain_chars" "CHR ''e'' \<in> plain_chars"
  by (simp_all add: plain_chars_def)

lemma str_int_plain: "set (str_int i) \<subseteq> plain_chars"
  by (simp add: str_int_def plain_signs digits_plain)

lemma strip_zeros_subset: "set (strip_zeros ds) \<subseteq> set ds"
  by (auto simp: strip_zeros_def dest: set_dropWhileD)

lemma frac_part_plain: "set ds \<subseteq> plain_chars \<Longrightarrow> set (frac_part ds) \<subseteq> plain_chars"
proof -
  assume "set ds \<subseteq> plain_chars"
  with strip_zeros_subset [of ds] have "set (strip_zeros ds) \<subseteq> plain_chars"
    by (rule subset_trans)
  then show ?thesis
    by (simp add: frac_part_def Let_def plain_signs)
qed

lemma exp_part_plain: "set (exp_part X) \<subseteq> plain_chars"
  by (simp add: exp_part_def plain_signs digits_plain)

lemma format_pos_plain: "set (format_pos a) \<subseteq> plain_chars"
proof -
  obtain m X where mx: "sig10 a = (m, X)" by (cases "sig10 a")
  let ?ds = "digits (nat m)"
  have ds: "set ?ds \<subseteq> plain_chars" by (rule digits_plain)
  have tk: "set (take k ?ds) \<subseteq> plain_chars" for k
    using ds set_take_subset [of k ?ds] by blast
  have dr: "set (frac_part (drop k ?ds)) \<subseteq> plain_chars" for k
    using ds set_drop_subset [of k ?ds] by (intro frac_part_plain) blast
  have sz: "set (strip_zeros ?ds) \<subseteq> plain_chars"
    using ds strip_zeros_subset [of ?ds] by blast
  have rp: "set (replicate k (CHR ''0'')) \<subseteq> plain_chars" for k
    by (auto simp: plain_signs)
  show ?thesis
    by (simp add: format_pos_def mx Let_def plain_signs tk dr sz rp exp_part_plain
        del: set_replicate)
qed

lemma format_10g_plain: "set (format_10g v) \<subseteq> plain_chars"
proof -
  show ?thesis
    using format_pos_plain [of v] format_pos_plain [of "- v"]
    by (simp add: format_10g_def plain_signs)
qed

lemma dropWhile_none: "\<forall>x \<in> set xs. \<not> P x \<Longrightarrow> dropWhile P xs = xs"
  by (cases xs) simp_all

lemma strip_plain: "set s \<subseteq> plain_chars \<Longrightarrow> strip s = s"
proof -
  assume "set s \<subseteq> plain_chars"
  then have "\<forall>ch \<in> set s. \<not> py_isspace ch"
    using plain_not_space by blast
  then show ?thesis
    by (simp add: strip_def dropWhile_none)
qed

lemma rev_dropWhile_rev:
  "\<exists>w. xs = rev (dropWhile P (rev xs)) @ w \<and> (\<forall>x \<in> set w. P x)"
proof -
  have "rev (takeWhile P (rev xs) @ dropWhile P (rev xs)) = xs"
    by simp
  then have "rev (dropWhile P (rev xs)) @ rev (takeWhile P (rev xs)) = xs"
    by (simp only: rev_append)
  moreover have "\<forall>x \<in> set (rev (takeWhile P (rev xs))). P x"
    by (auto dest: set_takeWhileD)
  ultimately show ?thesis by metis
qed


lemma strip_ends:
  "strip s = [] \<or> (\<not> py_isspace (hd (strip s)) \<and> \<not> py_isspace (last (strip s)))"
proof (cases "strip s = []")
  case True
  then show ?thesis by simp
next
  case False
  define t where "t = dropWhile py_isspace s"
  define d where "d = dropWhile py_isspace (rev t)"
  have s: "strip s = rev d"
    by (simp add: strip_def t_def d_def)
  with False have dne: "d \<noteq> []" by simp
  then have "\<not> py_isspace (hd d)"
    unfolding d_def by (rule hd_dropWhile)
  with dne have l: "\<not> py_isspace (last (strip s))"
    by (simp add: s last_rev)
  obtain w where "t = rev d @ w"
    unfolding d_def using rev_dropWhile_rev [of t py_isspace] by blast
  with dne have "hd t = hd (rev d)" and tne: "t \<noteq> []"
    by simp_all
  moreover from tne have "\<not> py_isspace (hd t)"
    unfolding t_def by (rule hd_dropWhile)
  ultimately have "\<not> py_isspace (hd (strip s))"
    by (simp add: s)
  with l show ?thesis by simp
qed

lemma strip_fixed:
  "s = [] \<or> (\<not> py_isspace (hd s) \<and> \<not> py_isspace (last s)) \<Longrightarrow> strip s = s"
proof (cases "s = []")
  case True
  then show ?thesis by (simp add: strip_def)
next
  case False
  assume "s = [] \<or> (\<not> py_isspace (hd s) \<and> \<not> py_isspace (last s))"
  with False have h: "\<not> py_isspace (hd s)" and l: "\<not> py_isspace (last s)" by simp_all
  from False h have 1: "dropWhile py_isspace s = s" by (cases s) simp_all
  from False l have "\<not> py_isspace (hd (rev s))" by (simp add: hd_rev)
  with False have 2: "dropWhile py_isspace (rev s) = rev s" by (cases "rev s") simp_all
  show ?thesis by (simp add: strip_def 1 2)
qed

lemma strip_idem: "strip (strip s) = strip s"
  by (rule strip_fixed) (rule strip_ends)

text \<open>
  C9: normalisation is idempotent on its outputs: normalising the string that \<^verbatim>\<open>_norm\<close>
  returned for a cell value gives that string back.
\<close>

theorem norm_cell_idempotent: "norm_cell (VStr (norm_cell x)) = norm_cell x"
proof (cases x)
  case VNone
  then show ?thesis by (simp add: strip_def)
next
  case (VFloat v)
  then show ?thesis
    by (simp add: strip_plain str_int_plain format_10g_plain)
next
  case (VInt i)
  then show ?thesis by (simp add: strip_idem)
next
  case (VStr s)
  then show ?thesis by (simp add: strip_idem)
next
  case (VBool b)
  then show ?thesis by (simp add: strip_idem)
next
  case (VOther s)
  then show ?thesis by (simp add: strip_idem)
qed

text \<open>A padded text cell: its normal form is \<open>ab c\<close>, and normalising that changes nothing.\<close>

theorem norm_cell_idempotent_witness:
  "norm_cell (VStr ''  ab c '') = ''ab c'' \<and> norm_cell (VStr ''ab c'') = ''ab c''"
proof -
  have "norm_cell (VStr ''  ab c '') = ''ab c''"
    by (simp add: strip_def py_isspace_def)
  with norm_cell_idempotent [of "VStr ''  ab c ''"] show ?thesis
    by simp
qed

subsection \<open>Digits, rounding and the ten significant digits\<close>








lemma py_round_error: "\<bar>v - of_int (py_round v)\<bar> \<le> 1 / 2"
proof -
  have "of_int \<lfloor>v\<rfloor> \<le> v" "v < of_int \<lfloor>v\<rfloor> + 1" by linarith+
  then show ?thesis
    by (auto simp: py_round_def Let_def)
qed



lemma sd_examples:
  "significant_digits ''0.0001234'' = ''1234''"
  "significant_digits ''1.23456789e+13'' = ''123456789''"
  "significant_digits ''-1234567890'' = ''1234567890''"
  by (simp_all add: significant_digits_def is_digit_def)



lemma is_digit_simps [simp]:
  "\<not> is_digit (CHR ''.'')" "\<not> is_digit (CHR ''-'')" "is_digit (CHR ''0'')"
  by (simp_all add: is_digit_def)







subsection \<open>The rules of normalisation\<close>














end
